theory Spec2Isabelle
  imports Complex_Main "HOL-Library.List_Lexorder" "HOL-Library.Multiset"
begin

section \<open>Strings\<close>

text \<open>
  A Python \<^verbatim>\<open>str\<close> is a sequence of Unicode code points, and \<^verbatim>\<open>len\<close> counts code
  points. A string is modelled as the list of its code points; \<open>ustr\<close> writes an ASCII
  literal. With \<^verbatim>\<open>List_Lexorder\<close> the order \<open><\<close> on such lists is the lexicographic
  order by code point, which is how Python compares two strings.
\<close>

type_synonym pystr = "nat list"

definition ustr :: "string \<Rightarrow> pystr" where
  "ustr s = map of_char s"

text \<open>
  The characters \<^verbatim>\<open>str.strip()\<close> and \<^verbatim>\<open>str.split()\<close> treat as whitespace
  (\<^verbatim>\<open>str.isspace\<close>): U+0009..U+000D, U+001C..U+0020, U+0085, U+00A0, U+1680,
  U+2000..U+200A, U+2028, U+2029, U+202F, U+205F, U+3000.
\<close>

definition is_space :: "nat \<Rightarrow> bool" where
  "is_space c \<longleftrightarrow>
     (9 \<le> c \<and> c \<le> 13) \<or> (28 \<le> c \<and> c \<le> 32) \<or> c = 133 \<or> c = 160 \<or> c = 5760 \<or>
     (8192 \<le> c \<and> c \<le> 8202) \<or> c = 8232 \<or> c = 8233 \<or> c = 8239 \<or> c = 8287 \<or> c = 12288"

definition py_strip :: "pystr \<Rightarrow> pystr" where
  "py_strip s = rev (dropWhile is_space (rev (dropWhile is_space s)))"

section \<open>The chunker (document\_processor.py, create\_chunks)\<close>

text \<open>The character class \<^verbatim>\<open>[.!?]\<close> of the sentence pattern.\<close>

definition is_term :: "nat \<Rightarrow> bool" where
  "is_term c \<longleftrightarrow> c = 46 \<or> c = 33 \<or> c = 63"

text \<open>
  \<^verbatim>\<open>re.split(r'[.!?]+', full_text)\<close>: the text is cut at every maximal run of
  terminators, the runs are discarded, and the pieces before, between and after them are
  returned (the first and the last may be empty; the empty text gives one empty piece).
\<close>

function re_split :: "pystr \<Rightarrow> pystr list" where
  "re_split s =
     (let piece = takeWhile (\<lambda>c. \<not> is_term c) s;
          rest = dropWhile (\<lambda>c. \<not> is_term c) s
      in if rest = [] then [piece] else piece # re_split (dropWhile is_term rest))"
  by pat_completeness auto
termination
proof (relation "measure length")
  show "wf (measure length)" by simp
next
  fix s :: pystr and piece rest
  assume r: "rest = dropWhile (\<lambda>c. \<not> is_term c) s" and ne: "rest \<noteq> []"
  from ne obtain c cs where rc: "rest = c # cs" by (cases rest) auto
  have "is_term c" using r rc hd_dropWhile [of "\<lambda>c. \<not> is_term c" s] by force
  then have "length (dropWhile is_term rest) \<le> length cs"
    using rc length_dropWhile_le [of is_term cs] by simp
  moreover have "length rest \<le> length s"
    using r length_dropWhile_le [of "\<lambda>c. \<not> is_term c" s] by simp
  ultimately show "(dropWhile is_term rest, s) \<in> measure length"
    using rc by simp
qed

declare re_split.simps [simp del]

text \<open>
  The loop over the sentences: \<open>chunks\<close> and \<open>current_chunk\<close> are the two variables of the
  source. A piece that is empty after \<^verbatim>\<open>strip()\<close> is skipped; a sentence joins the
  current chunk when \<^verbatim>\<open>len(current_chunk + sentence) <= max_chunk_size\<close>, otherwise the
  current chunk (when not empty) is sealed and the sentence starts the next one. After the
  loop the last chunk is sealed.
\<close>

fun chunk_loop :: "int \<Rightarrow> pystr list \<Rightarrow> pystr list \<Rightarrow> pystr \<Rightarrow> pystr list" where
  "chunk_loop max_chunk_size [] chunks current_chunk =
     (if current_chunk \<noteq> [] then chunks @ [py_strip current_chunk] else chunks)"
| "chunk_loop max_chunk_size (piece # rest) chunks current_chunk =
     (let sentence = py_strip piece in
      if sentence = [] then chunk_loop max_chunk_size rest chunks current_chunk
      else if int (length (current_chunk @ sentence)) \<le> max_chunk_size
      then chunk_loop max_chunk_size rest chunks (current_chunk @ sentence @ ustr ''. '')
      else chunk_loop max_chunk_size rest
             (if current_chunk \<noteq> [] then chunks @ [py_strip current_chunk] else chunks)
             (sentence @ ustr ''. ''))"

definition chunk_text :: "pystr \<Rightarrow> int \<Rightarrow> pystr list" where
  "chunk_text full_text max_chunk_size = chunk_loop max_chunk_size (re_split full_text) [] []"

text \<open>
  The extracted document: \<^verbatim>\<open>text_content['full_text']\<close> and
  \<^verbatim>\<open>text_content['metadata']\<close>. Of the metadata the chunker reads
  \<^verbatim>\<open>document_type\<close> and, for a PDF, \<^verbatim>\<open>total_pages\<close>; \<open>total_pages\<close> is \<open>None\<close> when
  the dictionary has no such key (the Word and PowerPoint extractors do not set it), and
  reading it then raises \<^verbatim>\<open>KeyError\<close>.
\<close>

datatype exn = KeyError | TypeError | AttributeError | ZeroDivisionError | ExtractionError

record doc_metadata =
  document_type :: pystr
  total_pages :: "int option"

record text_content =
  full_text :: pystr
  metadata :: doc_metadata

definition create_chunks :: "text_content \<Rightarrow> int \<Rightarrow> exn + pystr list" where
  "create_chunks tc max_chunk_size =
     (if document_type (metadata tc) = ustr ''PDF''
      then (case total_pages (metadata tc) of
              None \<Rightarrow> Inl KeyError
            | Some pages \<Rightarrow>
                Inr (chunk_text (full_text tc)
                       (if pages > 100 then 6000
                        else if pages > 50 then 5000
                        else max_chunk_size)))
      else Inr (chunk_text (full_text tc) max_chunk_size))"

text \<open>The sentences of a text: its pieces after \<^verbatim>\<open>strip()\<close>, the empty ones dropped.\<close>

definition sentences_of :: "pystr \<Rightarrow> pystr list" where
  "sentences_of t = filter (\<lambda>s. s \<noteq> []) (map py_strip (re_split t))"

text \<open>What the loop writes for a group of sentences, and the chunk sealed from it.\<close>

definition render :: "pystr list \<Rightarrow> pystr" where
  "render g = concat (map (\<lambda>s. s @ ustr ''. '') g)"

definition seal :: "pystr list \<Rightarrow> pystr" where
  "seal g = py_strip (render g)"

text \<open>
  A sentence as the loop sees it: not empty, no whitespace at either end (it went through
  \<^verbatim>\<open>strip()\<close>) and no terminator inside (it is a piece of the split).
\<close>

definition clean :: "pystr \<Rightarrow> bool" where
  "clean s \<longleftrightarrow>
     s \<noteq> [] \<and> \<not> is_space (hd s) \<and> \<not> is_space (last s) \<and> list_all (\<lambda>c. \<not> is_term c) s"

text \<open>
  The size a group of sentences can reach: the test of the loop bounds the buffer before
  the sentence's own \<^verbatim>\<open>". "\<close> is added, so a sealed chunk has at most
  \<open>max_chunk_size + 1\<close> characters, unless it is one sentence that is itself longer than
  \<open>max_chunk_size\<close>. \<open>fits_cur\<close> is the same bound on the buffer before it is sealed.
\<close>

definition fits :: "int \<Rightarrow> pystr list \<Rightarrow> bool" where
  "fits m g \<longleftrightarrow> int (length (seal g)) \<le> m + 1 \<or> (\<exists>s. g = [s] \<and> m < int (length s))"

definition fits_cur :: "int \<Rightarrow> pystr list \<Rightarrow> bool" where
  "fits_cur m g \<longleftrightarrow> int (length (render g)) \<le> m + 2 \<or> (\<exists>s. g = [s] \<and> m < int (length s))"

text \<open>
  The size rule in the words of the specification: 4000 by default, 5000 for more than 50
  pages, 6000 for more than 100 pages; the argument is the page count the metadata gives,
  if any.
\<close>

definition spec_max_chunk_size :: "int option \<Rightarrow> int" where
  "spec_max_chunk_size pages =
     (case pages of
        None \<Rightarrow> 4000
      | Some p \<Rightarrow> if p > 100 then 6000 else if p > 50 then 5000 else 4000)"

text \<open>Documents used as concrete inputs below.\<close>

definition word_doc :: "pystr \<Rightarrow> text_content" where
  "word_doc t =
     \<lparr>full_text = t, metadata = \<lparr>document_type = ustr ''Word Document'', total_pages = None\<rparr>\<rparr>"

definition pdf_doc :: "pystr \<Rightarrow> int \<Rightarrow> text_content" where
  "pdf_doc t pages =
     \<lparr>full_text = t, metadata = \<lparr>document_type = ustr ''PDF'', total_pages = Some pages\<rparr>\<rparr>"

section \<open>The chatbot (chatbot.py)\<close>

text \<open>
  \<^verbatim>\<open>str.lower()\<close> is the Unicode case mapping, a table of the interpreter and not of the
  repository: the functions that call it take it as the parameter \<open>lower\<close>. The concrete
  inputs below use \<open>ascii_lower\<close>, which is \<^verbatim>\<open>str.lower()\<close> on ASCII text.
\<close>

definition ascii_lower :: "pystr \<Rightarrow> pystr" where
  "ascii_lower s = map (\<lambda>c. if 65 \<le> c \<and> c \<le> 90 then c + 32 else c) s"

text \<open>
  \<^verbatim>\<open>str.split()\<close> without argument: the maximal runs of characters that are not
  whitespace, in order; no empty word.
\<close>

function py_split :: "pystr \<Rightarrow> pystr list" where
  "py_split s =
     (let s' = dropWhile is_space s in
      if s' = [] then []
      else takeWhile (\<lambda>c. \<not> is_space c) s' # py_split (dropWhile (\<lambda>c. \<not> is_space c) s'))"
  by pat_completeness auto
termination
proof (relation "measure length")
  show "wf (measure length)" by simp
next
  fix s s' :: pystr
  assume s': "s' = dropWhile is_space s" and ne: "s' \<noteq> []"
  from ne obtain c cs where c: "s' = c # cs" by (cases s') auto
  have "\<not> is_space c" using s' c hd_dropWhile [of is_space s] by force
  then have "length (dropWhile (\<lambda>c. \<not> is_space c) s') \<le> length cs"
    using c length_dropWhile_le [of "\<lambda>c. \<not> is_space c" cs] by simp
  moreover have "length s' \<le> length s"
    using s' length_dropWhile_le [of is_space s] by simp
  ultimately show "(dropWhile (\<lambda>c. \<not> is_space c) s', s) \<in> measure length"
    using c by simp
qed

declare py_split.simps [simp del]

text \<open>\<^verbatim>\<open>word in text\<close>: the word occurs in the text as a contiguous substring.\<close>

fun py_in :: "pystr \<Rightarrow> pystr \<Rightarrow> bool" where
  "py_in word [] = (word = [])"
| "py_in word (c # cs) = (take (length word) (c # cs) = word \<or> py_in word cs)"

text \<open>
  A chunk of the session (\<^verbatim>\<open>chunk_info\<close>: the keys \<^verbatim>\<open>text\<close>, \<^verbatim>\<open>document\<close>,
  \<^verbatim>\<open>chunk_id\<close>, \<^verbatim>\<open>doc_type\<close>; the field \<open>ctext\<close> is the key \<^verbatim>\<open>text\<close>), and the copy
  with the key \<^verbatim>\<open>similarity\<close> that a search returns. The similarity is a Python float,
  the quotient of two integers; it is modelled by the exact quotient. For fewer than
  \<open>2^52\<close> query words the float quotients of the chunks are ordered, and equal, as the
  exact ones are.
\<close>

record chunk_info =
  ctext :: pystr
  document :: pystr
  chunk_id :: nat
  doc_type :: pystr

record scored_chunk = chunk_info +
  similarity :: rat

text \<open>
  \<^verbatim>\<open>list.sort(key=..., reverse=True)\<close> with a key that is totally ordered: Python's sort
  is stable, and with \<^verbatim>\<open>reverse=True\<close> it reverses the list, sorts it ascending and
  stable, and reverses the result, so that elements with equal keys keep their order.
\<close>

definition py_sort_reverse :: "('a \<Rightarrow> 'k::linorder) \<Rightarrow> 'a list \<Rightarrow> 'a list" where
  "py_sort_reverse key xs = rev (sort_key key (rev xs))"

text \<open>The slice \<^verbatim>\<open>xs[:k]\<close>; a negative \<open>k\<close> counts from the end.\<close>

definition py_slice_to :: "'a list \<Rightarrow> int \<Rightarrow> 'a list" where
  "py_slice_to xs k = (if 0 \<le> k then take (nat k) xs else take (length xs - nat (- k)) xs)"

text \<open>
  \<^verbatim>\<open>_keyword_search\<close>: the loop over \<^verbatim>\<open>self.chunks\<close> that collects the scored copies,
  then the sort and the slice. \<^verbatim>\<open>score / len(query_words)\<close> raises
  \<^verbatim>\<open>ZeroDivisionError\<close> when there is no query word.
\<close>

fun keyword_loop ::
  "(pystr \<Rightarrow> pystr) \<Rightarrow> pystr list \<Rightarrow> chunk_info list \<Rightarrow> scored_chunk list \<Rightarrow> exn + scored_chunk list"
where
  "keyword_loop lower query_words [] scored_chunks = Inr scored_chunks"
| "keyword_loop lower query_words (chunk # rest) scored_chunks =
     (let text_lower = lower (ctext chunk);
          score = sum_list (map (\<lambda>word. if py_in word text_lower then 1 else 0) query_words) :: nat
      in if score > 0
         then (if length query_words = 0 then Inl ZeroDivisionError
               else keyword_loop lower query_words rest
                      (scored_chunks @
                        [\<lparr>ctext = ctext chunk, document = document chunk, chunk_id = chunk_id chunk,
                          doc_type = doc_type chunk,
                          similarity = of_nat score / of_nat (length query_words)\<rparr>]))
         else keyword_loop lower query_words rest scored_chunks)"

definition keyword_search ::
  "(pystr \<Rightarrow> pystr) \<Rightarrow> chunk_info list \<Rightarrow> pystr \<Rightarrow> int \<Rightarrow> exn + scored_chunk list"
where
  "keyword_search lower chunks query top_k =
     (let query_words = py_split (lower query) in
      case keyword_loop lower query_words chunks [] of
        Inl e \<Rightarrow> Inl e
      | Inr scored_chunks \<Rightarrow> Inr (py_slice_to (py_sort_reverse similarity scored_chunks) top_k))"

text \<open>
  The fallback search in the words of the specification: the score of a chunk is the
  fraction of the query words that occur in its lower-cased text; the chunks with a
  positive score are kept, ordered by score descending with ties in the original order (a
  stable sort by the negated score), and the first \<open>top_k\<close> are returned.
\<close>

definition spec_score :: "(pystr \<Rightarrow> pystr) \<Rightarrow> pystr list \<Rightarrow> chunk_info \<Rightarrow> rat" where
  "spec_score lower query_words chunk =
     of_nat (length (filter (\<lambda>word. py_in word (lower (ctext chunk))) query_words)) /
     of_nat (length query_words)"

definition with_score :: "(pystr \<Rightarrow> pystr) \<Rightarrow> pystr list \<Rightarrow> chunk_info \<Rightarrow> scored_chunk" where
  "with_score lower query_words chunk =
     \<lparr>ctext = ctext chunk, document = document chunk, chunk_id = chunk_id chunk,
      doc_type = doc_type chunk, similarity = spec_score lower query_words chunk\<rparr>"

definition spec_keyword_search ::
  "(pystr \<Rightarrow> pystr) \<Rightarrow> chunk_info list \<Rightarrow> pystr \<Rightarrow> nat \<Rightarrow> scored_chunk list"
where
  "spec_keyword_search lower chunks query top_k =
     take top_k
       (sort_key (\<lambda>c. - similarity c)
          (filter (\<lambda>c. 0 < similarity c)
             (map (with_score lower (py_split (lower query))) chunks)))"

text \<open>Chunks used as concrete inputs below.\<close>

definition mk_chunk :: "string \<Rightarrow> string \<Rightarrow> nat \<Rightarrow> chunk_info" where
  "mk_chunk t d i = \<lparr>ctext = ustr t, document = ustr d, chunk_id = i, doc_type = ustr ''PDF''\<rparr>"

definition mk_scored :: "string \<Rightarrow> string \<Rightarrow> nat \<Rightarrow> rat \<Rightarrow> scored_chunk" where
  "mk_scored t d i s =
     \<lparr>ctext = ustr t, document = ustr d, chunk_id = i, doc_type = ustr ''PDF'', similarity = s\<rparr>"

definition kw_chunks :: "chunk_info list" where
  "kw_chunks =
     [mk_chunk ''The cat sat.'' ''a.pdf'' 0, mk_chunk ''A Big dog; the cat.'' ''a.pdf'' 1,
      mk_chunk ''Nothing.'' ''b.pdf'' 0, mk_chunk ''cat'' ''b.pdf'' 1]"

section \<open>The analysis orchestrator (ai\_analyzer.py)\<close>

subsection \<open>Parsed replies\<close>

text \<open>
  What \<^verbatim>\<open>json.loads\<close> returns: \<^verbatim>\<open>None\<close>, a \<^verbatim>\<open>bool\<close>, an \<^verbatim>\<open>int\<close>, a \<^verbatim>\<open>str\<close>, a
  \<^verbatim>\<open>list\<close> or a \<^verbatim>\<open>dict\<close> with string keys. A dictionary is the list of its items in
  insertion order, each key once. Numbers with a fraction or an exponent (Python floats)
  are not modelled.
\<close>

datatype json =
    JNull | JBool bool | JInt int | JStr pystr | JArr "json list" | JObj "(pystr \<times> json) list"

text \<open>
  \<^verbatim>\<open>x.get(key, default)\<close>: only a dictionary has the method. \<^verbatim>\<open>x[key]\<close> with a
  string key: \<^verbatim>\<open>KeyError\<close> for a dictionary without the key, \<^verbatim>\<open>TypeError\<close> for everything
  that is not a dictionary. \<^verbatim>\<open>d[key] = v\<close> replaces the value of a key in place and puts a
  new key last.
\<close>

fun py_get :: "json \<Rightarrow> pystr \<Rightarrow> json \<Rightarrow> exn + json" where
  "py_get (JObj items) key dflt =
     Inr (case map_of items key of None \<Rightarrow> dflt | Some v \<Rightarrow> v)"
| "py_get x key dflt = Inl AttributeError"

fun py_getitem :: "json \<Rightarrow> pystr \<Rightarrow> exn + json" where
  "py_getitem (JObj items) key = (case map_of items key of None \<Rightarrow> Inl KeyError | Some v \<Rightarrow> Inr v)"
| "py_getitem x key = Inl TypeError"

fun dict_set :: "(pystr \<times> 'v) list \<Rightarrow> pystr \<Rightarrow> 'v \<Rightarrow> (pystr \<times> 'v) list" where
  "dict_set [] key v = [(key, v)]"
| "dict_set (item # items) key v =
     (if fst item = key then (key, v) # items else item # dict_set items key v)"

text \<open>
  Iterating a value, as \<^verbatim>\<open>list.extend\<close> and \<^verbatim>\<open>for\<close> do: the elements of a list, the
  characters of a string (each a string of length one), the keys of a dictionary;
  \<^verbatim>\<open>None\<close>, a \<^verbatim>\<open>bool\<close> and an \<^verbatim>\<open>int\<close> are not iterable.
\<close>

fun py_iter :: "json \<Rightarrow> exn + json list" where
  "py_iter (JArr xs) = Inr xs"
| "py_iter (JStr s) = Inr (map (\<lambda>c. JStr [c]) s)"
| "py_iter (JObj items) = Inr (map (\<lambda>item. JStr (fst item)) items)"
| "py_iter x = Inl TypeError"

text \<open>
  Python's \<^verbatim>\<open>==\<close> and \<^verbatim>\<open><\<close> on these values. \<^verbatim>\<open>True\<close> and \<^verbatim>\<open>False\<close> are the
  integers 1 and 0; two dictionaries are equal when they have the same keys with equal
  values; lists are compared element by element, at the first position where they
  differ. \<^verbatim>\<open><\<close> is defined between two strings (lexicographic by code point), two numbers
  and two lists; every other comparison raises \<^verbatim>\<open>TypeError\<close>.
\<close>

fun py_num :: "json \<Rightarrow> int option" where
  "py_num (JBool b) = Some (if b then 1 else 0)"
| "py_num (JInt i) = Some i"
| "py_num x = None"

fun py_eq :: "json \<Rightarrow> json \<Rightarrow> bool"
  and py_eq_list :: "json list \<Rightarrow> json list \<Rightarrow> bool"
  and py_eq_items :: "(pystr \<times> json) list \<Rightarrow> (pystr \<times> json) list \<Rightarrow> bool"
where
  "py_eq JNull y = (y = JNull)"
| "py_eq (JBool b) y = (py_num y = Some (if b then 1 else 0))"
| "py_eq (JInt i) y = (py_num y = Some i)"
| "py_eq (JStr s) y = (y = JStr s)"
| "py_eq (JArr xs) y = (case y of JArr ys \<Rightarrow> py_eq_list xs ys | _ \<Rightarrow> False)"
| "py_eq (JObj items) y =
     (case y of JObj items' \<Rightarrow> length items = length items' \<and> py_eq_items items items'
      | _ \<Rightarrow> False)"
| "py_eq_list [] ys = (ys = [])"
| "py_eq_list (x # xs) ys =
     (case ys of [] \<Rightarrow> False | y # ys' \<Rightarrow> py_eq x y \<and> py_eq_list xs ys')"
| "py_eq_items [] items' = True"
| "py_eq_items (item # items) items' =
     (case map_of items' (fst item) of
        None \<Rightarrow> False
      | Some w \<Rightarrow> py_eq (snd item) w \<and> py_eq_items items items')"

fun py_lt :: "json \<Rightarrow> json \<Rightarrow> exn + bool"
  and py_lt_list :: "json list \<Rightarrow> json list \<Rightarrow> exn + bool"
where
  "py_lt (JStr a) y = (case y of JStr b \<Rightarrow> Inr (a < b) | _ \<Rightarrow> Inl TypeError)"
| "py_lt (JBool a) y =
     (case py_num y of Some b \<Rightarrow> Inr ((if a then 1 else 0) < b) | None \<Rightarrow> Inl TypeError)"
| "py_lt (JInt a) y = (case py_num y of Some b \<Rightarrow> Inr (a < b) | None \<Rightarrow> Inl TypeError)"
| "py_lt (JArr xs) y = (case y of JArr ys \<Rightarrow> py_lt_list xs ys | _ \<Rightarrow> Inl TypeError)"
| "py_lt JNull y = Inl TypeError"
| "py_lt (JObj items) y = Inl TypeError"
| "py_lt_list [] ys = Inr (ys \<noteq> [])"
| "py_lt_list (x # xs) ys =
     (case ys of
        [] \<Rightarrow> Inr False
      | y # ys' \<Rightarrow> if py_eq x y then py_lt_list xs ys' else py_lt x y)"

text \<open>
  \<^verbatim>\<open>list.sort(key=...)\<close> on a list of (key, element) pairs, the keys already computed: a
  stable sort that compares keys with \<^verbatim>\<open><\<close> only, and an exception of a comparison
  leaves the sort. It is modelled as the stable insertion sort. Whenever \<^verbatim>\<open><\<close> is a total
  order on the keys (all strings, or all numbers) the result is that of every stable sort;
  a list of fewer than two elements is returned without a comparison; and in a longer list
  with a key that is \<^verbatim>\<open>None\<close> or a dictionary, or with strings beside numbers, every
  comparison sort meets a comparison that raises. Only for keys that are lists of mixed
  content, where \<^verbatim>\<open><\<close> raises for some pairs and not for others, the comparisons made
  here need not be those Python's sort makes.
\<close>

fun py_insort :: "json \<times> 'a \<Rightarrow> (json \<times> 'a) list \<Rightarrow> exn + (json \<times> 'a) list" where
  "py_insort x [] = Inr [x]"
| "py_insort x (y # ys) =
     (case py_lt (fst y) (fst x) of
        Inl e \<Rightarrow> Inl e
      | Inr True \<Rightarrow> (case py_insort x ys of Inl e \<Rightarrow> Inl e | Inr r \<Rightarrow> Inr (y # r))
      | Inr False \<Rightarrow> Inr (x # y # ys))"

fun py_sort :: "(json \<times> 'a) list \<Rightarrow> exn + (json \<times> 'a) list" where
  "py_sort [] = Inr []"
| "py_sort (x # xs) = (case py_sort xs of Inl e \<Rightarrow> Inl e | Inr r \<Rightarrow> py_insort x r)"

subsection \<open>The LLM collaborator\<close>

text \<open>
  A request \<^verbatim>\<open>self.client.chat.completions.create(...)\<close> either raises or returns a
  message; \<^verbatim>\<open>json.loads\<close> of its content either raises or returns a value. The parser is
  the standard library's and is not modelled: a reply carries its content and what the
  parser makes of it (\<open>None\<close> when it raises). The replies are not determined by the
  prompts, so the collaborator is the function that gives the reply to the \<open>n\<close>-th request
  of a run, counted from 0; the prompts themselves are not modelled.
\<close>

datatype reply = Raised | Content pystr "json option"

fun parsed :: "reply \<Rightarrow> json option" where
  "parsed Raised = None"
| "parsed (Content c p) = p"

text \<open>
  The dictionary an analysis returns, by its \<^verbatim>\<open>analysis_type\<close>: the consolidated summary
  (a dictionary, as JSON), the topic structure with the per-topic analyses, the extracted
  categories, the clause list, the timeline, the raw text of a general analysis with its
  label, or the dictionary with the only key \<^verbatim>\<open>error\<close> (its message is not modelled).
  The list \<^verbatim>\<open>list(set(values))\<close> of an extracted category has no specified order: it is
  modelled as the set of the values, \<^verbatim>\<open>True\<close> and \<^verbatim>\<open>False\<close> written as the integers they
  are equal to.
\<close>

datatype analysis_result =
    Summary json
  | Topics json "(pystr \<times> json) list"
  | Extracted "(pystr \<times> json set) list"
  | Clauses "json list"
  | Timeline "json list"
  | General pystr pystr
  | Error_result

subsection \<open>Fixed strings\<close>

definition resumo_executivo :: pystr where
  "resumo_executivo = ustr ''Resumo Executivo''"

definition analise_por_topicos :: pystr where
  "analise_por_topicos = ustr ''An'' @ [225] @ ustr ''lise por T'' @ [243] @ ustr ''picos''"

definition extracao_de_dados :: pystr where
  "extracao_de_dados = ustr ''Extra'' @ [231, 227] @ ustr ''o de Dados''"

definition analise_de_clausulas :: pystr where
  "analise_de_clausulas = ustr ''An'' @ [225] @ ustr ''lise de Cl'' @ [225] @ ustr ''usulas''"

definition timeline_de_eventos :: pystr where
  "timeline_de_eventos = ustr ''Timeline de Eventos''"

definition resumo_nao_disponivel :: pystr where
  "resumo_nao_disponivel =
     ustr ''Resumo n'' @ [227] @ ustr ''o dispon'' @ [237] @
     ustr ''vel devido a erro de processamento''"

text \<open>\<^verbatim>\<open>str(n)\<close> of a natural number, as the f-strings write it.\<close>

fun decimal :: "nat \<Rightarrow> pystr" where
  "decimal n = (if n < 10 then [48 + n] else decimal (n div 10) @ [48 + n mod 10])"

declare decimal.simps [simp del]

subsection \<open>Executive Summary\<close>

text \<open>
  \<^verbatim>\<open>_executive_summary\<close>: one request per chunk (the \<open>i\<close>-th chunk gets the \<open>i\<close>-th
  reply); a reply that parses is the chunk's summary, whatever its shape, and a request
  that raises or a reply that does not parse gives the per-chunk default.
\<close>

definition default_summary :: "nat \<Rightarrow> json" where
  "default_summary i =
     JObj [(ustr ''main_points'', JArr [JStr (ustr ''Resumo do trecho '' @ decimal (i + 1))]),
           (ustr ''important_data'', JArr []),
           (ustr ''conclusions'', JArr [])]"

fun executive_loop :: "(nat \<Rightarrow> reply) \<Rightarrow> nat \<Rightarrow> pystr list \<Rightarrow> json list \<Rightarrow> json list" where
  "executive_loop llm i [] summaries = summaries"
| "executive_loop llm i (chunk # rest) summaries =
     executive_loop llm (Suc i) rest
       (summaries @ [case parsed (llm i) of
                       Some chunk_summary \<Rightarrow> chunk_summary
                     | None \<Rightarrow> default_summary i])"

text \<open>
  \<^verbatim>\<open>_consolidate_summaries\<close>. The loop that collects the three lists is outside the
  \<^verbatim>\<open>try\<close>: \<^verbatim>\<open>summary.get\<close> on a value that is not a dictionary and \<^verbatim>\<open>extend\<close> with a
  value that is not iterable raise past the function. The consolidation request and the
  assignment of \<^verbatim>\<open>analysis_type\<close> are inside the \<^verbatim>\<open>try\<close>: when the request raises, the
  reply does not parse, or the parsed value is not a dictionary (the assignment raises
  \<^verbatim>\<open>TypeError\<close>), the default is returned. The parameter \<^verbatim>\<open>summary_type\<close> is not read.
\<close>

fun extend_from :: "json \<Rightarrow> pystr \<Rightarrow> json list \<Rightarrow> exn + json list" where
  "extend_from summary key acc =
     (case py_get summary key (JArr []) of
        Inl e \<Rightarrow> Inl e
      | Inr v \<Rightarrow> (case py_iter v of Inl e \<Rightarrow> Inl e | Inr xs \<Rightarrow> Inr (acc @ xs)))"

fun collect_summaries ::
  "json list \<Rightarrow> json list \<Rightarrow> json list \<Rightarrow> json list \<Rightarrow> exn + json list \<times> json list \<times> json list"
where
  "collect_summaries [] all_points all_data all_conclusions =
     Inr (all_points, all_data, all_conclusions)"
| "collect_summaries (summary # rest) all_points all_data all_conclusions =
     (case extend_from summary (ustr ''main_points'') all_points of
        Inl e \<Rightarrow> Inl e
      | Inr all_points' \<Rightarrow>
          (case extend_from summary (ustr ''important_data'') all_data of
             Inl e \<Rightarrow> Inl e
           | Inr all_data' \<Rightarrow>
               (case extend_from summary (ustr ''conclusions'') all_conclusions of
                  Inl e \<Rightarrow> Inl e
                | Inr all_conclusions' \<Rightarrow>
                    collect_summaries rest all_points' all_data' all_conclusions')))"

definition fallback_summary :: "json list \<Rightarrow> json list \<Rightarrow> json list \<Rightarrow> json" where
  "fallback_summary all_points all_data all_conclusions =
     JObj [(ustr ''analysis_type'', JStr resumo_executivo),
           (ustr ''executive_summary'', JStr resumo_nao_disponivel),
           (ustr ''key_findings'', JArr (take 5 all_points)),
           (ustr ''important_metrics'', JArr (take 5 all_data)),
           (ustr ''recommendations'', JArr []),
           (ustr ''main_conclusions'', JArr (take 3 all_conclusions))]"

definition consolidate_summaries :: "json list \<Rightarrow> reply \<Rightarrow> exn + analysis_result" where
  "consolidate_summaries summaries consolidation =
     (case collect_summaries summaries [] [] [] of
        Inl e \<Rightarrow> Inl e
      | Inr (all_points, all_data, all_conclusions) \<Rightarrow>
          Inr (Summary
            (case parsed consolidation of
               Some (JObj consolidated) \<Rightarrow>
                 JObj (dict_set consolidated (ustr ''analysis_type'') (JStr resumo_executivo))
             | _ \<Rightarrow> fallback_summary all_points all_data all_conclusions)))"

definition executive_summary :: "pystr list \<Rightarrow> (nat \<Rightarrow> reply) \<Rightarrow> exn + analysis_result" where
  "executive_summary chunks llm =
     consolidate_summaries (executive_loop llm 0 chunks []) (llm (length chunks))"

subsection \<open>Topic Analysis\<close>

text \<open>
  \<^verbatim>\<open>_topic_analysis\<close>: request 0 asks for the topic structure; everything after it,
  \<^verbatim>\<open>_analyze_single_topic\<close> included, is inside one \<^verbatim>\<open>try\<close> whose handler returns the
  dictionary with the key \<^verbatim>\<open>error\<close>. A topic that is not a string makes
  \<^verbatim>\<open>topic.lower()\<close> raise. The request for a topic has its own \<^verbatim>\<open>try\<close>: its parsed reply
  is the topic's analysis, and a failure gives the default with a placeholder summary.
  Which chunks go into the prompt of a topic does not change the result.
\<close>

definition default_topic :: "pystr \<Rightarrow> json" where
  "default_topic topic =
     JObj [(ustr ''summary'',
              JStr (ustr ''An'' @ [225] @ ustr ''lise do t'' @ [243] @ ustr ''pico '' @ topic)),
           (ustr ''key_points'', JArr []),
           (ustr ''details'', JArr []),
           (ustr ''related_data'', JArr [])]"

fun topic_loop ::
  "(nat \<Rightarrow> reply) \<Rightarrow> nat \<Rightarrow> json list \<Rightarrow> (pystr \<times> json) list \<Rightarrow> exn + (pystr \<times> json) list"
where
  "topic_loop llm n [] topic_analyses = Inr topic_analyses"
| "topic_loop llm n (topic # rest) topic_analyses =
     (case topic of
        JStr t \<Rightarrow>
          topic_loop llm (Suc n) rest
            (dict_set topic_analyses t
               (case parsed (llm n) of Some analysis \<Rightarrow> analysis | None \<Rightarrow> default_topic t))
      | _ \<Rightarrow> Inl AttributeError)"

definition topic_analysis :: "pystr list \<Rightarrow> (nat \<Rightarrow> reply) \<Rightarrow> exn + analysis_result" where
  "topic_analysis chunks llm =
     (case parsed (llm 0) of
        None \<Rightarrow> Inr Error_result
      | Some topics_structure \<Rightarrow>
          (case py_getitem topics_structure (ustr ''main_topics'') of
             Inl e \<Rightarrow> Inr Error_result
           | Inr main_topics \<Rightarrow>
               (case py_iter main_topics of
                  Inl e \<Rightarrow> Inr Error_result
                | Inr topics \<Rightarrow>
                    (case topic_loop llm 1 topics [] of
                       Inl e \<Rightarrow> Inr Error_result
                     | Inr topic_analyses \<Rightarrow> Inr (Topics topics_structure topic_analyses)))))"

subsection \<open>Data Extraction\<close>

text \<open>
  \<^verbatim>\<open>_data_extraction\<close>: per chunk, inside the \<^verbatim>\<open>try\<close>, the seven categories are read in
  order from the parsed reply with \<^verbatim>\<open>key in chunk_data\<close> and \<^verbatim>\<open>chunk_data[key]\<close>; an
  exception ends the work on this chunk and keeps what was added before it. After the
  loop, outside any \<^verbatim>\<open>try\<close>, \<^verbatim>\<open>list(set(...))\<close> removes duplicates and raises
  \<^verbatim>\<open>TypeError\<close> for a collected value that is a list or a dictionary (unhashable).
\<close>

definition categories :: "pystr list" where
  "categories =
     [ustr ''dates'', ustr ''numbers'', ustr ''percentages'', ustr ''currencies'',
      ustr ''names'', ustr ''locations'', ustr ''organizations'']"

fun py_contains :: "json \<Rightarrow> pystr \<Rightarrow> exn + bool" where
  "py_contains (JObj items) key = Inr (key \<in> fst ` set items)"
| "py_contains (JArr xs) key = Inr (JStr key \<in> set xs)"
| "py_contains (JStr s) key = Inr (py_in key s)"
| "py_contains x key = Inl TypeError"

fun extract_keys ::
  "json \<Rightarrow> pystr list \<Rightarrow> (pystr \<times> json list) list \<Rightarrow> (pystr \<times> json list) list"
where
  "extract_keys chunk_data [] extracted_data = extracted_data"
| "extract_keys chunk_data (key # keys) extracted_data =
     (case py_contains chunk_data key of
        Inl e \<Rightarrow> extracted_data
      | Inr False \<Rightarrow> extract_keys chunk_data keys extracted_data
      | Inr True \<Rightarrow>
          (case py_getitem chunk_data key of
             Inl e \<Rightarrow> extracted_data
           | Inr v \<Rightarrow>
               (case py_iter v of
                  Inl e \<Rightarrow> extracted_data
                | Inr xs \<Rightarrow>
                    extract_keys chunk_data keys
                      (map (\<lambda>item. if fst item = key then (key, snd item @ xs) else item)
                           extracted_data))))"

fun extraction_loop ::
  "(nat \<Rightarrow> reply) \<Rightarrow> nat \<Rightarrow> pystr list \<Rightarrow> (pystr \<times> json list) list \<Rightarrow> (pystr \<times> json list) list"
where
  "extraction_loop llm n [] extracted_data = extracted_data"
| "extraction_loop llm n (chunk # rest) extracted_data =
     extraction_loop llm (Suc n) rest
       (case parsed (llm n) of
          None \<Rightarrow> extracted_data
        | Some chunk_data \<Rightarrow> extract_keys chunk_data categories extracted_data)"

fun py_hashable :: "json \<Rightarrow> bool" where
  "py_hashable (JArr xs) = False"
| "py_hashable (JObj items) = False"
| "py_hashable x = True"

fun as_number :: "json \<Rightarrow> json" where
  "as_number (JBool b) = JInt (if b then 1 else 0)"
| "as_number x = x"

definition data_extraction :: "pystr list \<Rightarrow> (nat \<Rightarrow> reply) \<Rightarrow> exn + analysis_result" where
  "data_extraction chunks llm =
     (let extracted_data = extraction_loop llm 0 chunks (map (\<lambda>key. (key, [])) categories) in
      if list_all (\<lambda>item. list_all py_hashable (snd item)) extracted_data
      then Inr (Extracted (map (\<lambda>item. (fst item, as_number ` set (snd item))) extracted_data))
      else Inl TypeError)"

subsection \<open>Clause Analysis\<close>

text \<open>
  \<^verbatim>\<open>_clause_analysis\<close>: the parsed reply of chunk \<open>i\<close> gets the key \<^verbatim>\<open>section\<close> with
  \<open>i + 1\<close> and is appended; the assignment is inside the \<^verbatim>\<open>try\<close> and raises for a value
  that is not a dictionary, so such a reply is skipped like a failed request.
\<close>

fun clause_loop :: "(nat \<Rightarrow> reply) \<Rightarrow> nat \<Rightarrow> pystr list \<Rightarrow> json list \<Rightarrow> json list" where
  "clause_loop llm i [] clauses = clauses"
| "clause_loop llm i (chunk # rest) clauses =
     clause_loop llm (Suc i) rest
       (case parsed (llm i) of
          Some (JObj clause_analysis) \<Rightarrow>
            clauses @ [JObj (dict_set clause_analysis (ustr ''section'') (JInt (int i + 1)))]
        | _ \<Rightarrow> clauses)"

definition clause_analysis :: "pystr list \<Rightarrow> (nat \<Rightarrow> reply) \<Rightarrow> exn + analysis_result" where
  "clause_analysis chunks llm = Inr (Clauses (clause_loop llm 0 chunks []))"

subsection \<open>Timeline\<close>

text \<open>
  \<^verbatim>\<open>_timeline_analysis\<close>: per chunk, inside the \<^verbatim>\<open>try\<close>,
  \<^verbatim>\<open>events.extend(chunk_events.get("events", []))\<close>; after the loop, outside any
  \<^verbatim>\<open>try\<close>, \<^verbatim>\<open>events.sort(key=lambda x: x.get("date", ""))\<close>: the keys of all events are
  computed first (\<^verbatim>\<open>AttributeError\<close> for an event that is not a dictionary), then the
  events are sorted by them.
\<close>

fun timeline_loop :: "(nat \<Rightarrow> reply) \<Rightarrow> nat \<Rightarrow> pystr list \<Rightarrow> json list \<Rightarrow> json list" where
  "timeline_loop llm n [] events = events"
| "timeline_loop llm n (chunk # rest) events =
     timeline_loop llm (Suc n) rest
       (case parsed (llm n) of
          None \<Rightarrow> events
        | Some chunk_events \<Rightarrow>
            (case py_get chunk_events (ustr ''events'') (JArr []) of
               Inl e \<Rightarrow> events
             | Inr v \<Rightarrow> (case py_iter v of Inl e \<Rightarrow> events | Inr xs \<Rightarrow> events @ xs)))"

fun date_keys :: "json list \<Rightarrow> exn + (json \<times> json) list" where
  "date_keys [] = Inr []"
| "date_keys (x # xs) =
     (case py_get x (ustr ''date'') (JStr []) of
        Inl e \<Rightarrow> Inl e
      | Inr k \<Rightarrow> (case date_keys xs of Inl e \<Rightarrow> Inl e | Inr ks \<Rightarrow> Inr ((k, x) # ks)))"

definition timeline_analysis :: "pystr list \<Rightarrow> (nat \<Rightarrow> reply) \<Rightarrow> exn + analysis_result" where
  "timeline_analysis chunks llm =
     (case date_keys (timeline_loop llm 0 chunks []) of
        Inl e \<Rightarrow> Inl e
      | Inr keyed \<Rightarrow>
          (case py_sort keyed of
             Inl e \<Rightarrow> Inl e
           | Inr sorted_events \<Rightarrow> Inr (Timeline (map snd sorted_events))))"

subsection \<open>General analysis and the dispatch\<close>

text \<open>
  \<^verbatim>\<open>_general_analysis\<close>: one request; its content is returned as it is, and a request
  that raises gives the dictionary with the key \<^verbatim>\<open>error\<close>.
\<close>

definition general_analysis ::
  "pystr list \<Rightarrow> pystr \<Rightarrow> (nat \<Rightarrow> reply) \<Rightarrow> exn + analysis_result"
where
  "general_analysis chunks analysis_type llm =
     (case llm 0 of
        Raised \<Rightarrow> Inr Error_result
      | Content c p \<Rightarrow> Inr (General analysis_type c))"

text \<open>
  \<^verbatim>\<open>perform_detailed_analysis\<close>: the document is chunked with the default size, outside
  any \<^verbatim>\<open>try\<close>, and the strategy is chosen by the label. \<open>Inl e\<close> is an exception that
  leaves the orchestrator.
\<close>

definition perform_detailed_analysis ::
  "text_content \<Rightarrow> pystr \<Rightarrow> (nat \<Rightarrow> reply) \<Rightarrow> exn + analysis_result"
where
  "perform_detailed_analysis tc analysis_type llm =
     (case create_chunks tc 4000 of
        Inl e \<Rightarrow> Inl e
      | Inr chunks \<Rightarrow>
          if analysis_type = resumo_executivo then executive_summary chunks llm
          else if analysis_type = analise_por_topicos then topic_analysis chunks llm
          else if analysis_type = extracao_de_dados then data_extraction chunks llm
          else if analysis_type = analise_de_clausulas then clause_analysis chunks llm
          else if analysis_type = timeline_de_eventos then timeline_analysis chunks llm
          else general_analysis chunks analysis_type llm)"

subsection \<open>Notions used to state the claims about the orchestrator\<close>

text \<open>
  The events one reply contributes to the timeline: the elements of the \<^verbatim>\<open>events\<close> list
  of a parsed dictionary (none when the key is absent), and nothing for a failed request,
  an unparsable reply or a reply of another shape than a dictionary.
\<close>

definition reply_events :: "reply \<Rightarrow> json list" where
  "reply_events r =
     (case parsed r of
        None \<Rightarrow> []
      | Some chunk_events \<Rightarrow>
          (case py_get chunk_events (ustr ''events'') (JArr []) of
             Inl e \<Rightarrow> []
           | Inr v \<Rightarrow> (case py_iter v of Inl e \<Rightarrow> [] | Inr xs \<Rightarrow> xs)))"

text \<open>
  An event whose date is a raw string: a dictionary whose \<^verbatim>\<open>date\<close> is a string or is
  absent (the sort key is then the empty string), and that string.
\<close>

fun has_string_date :: "json \<Rightarrow> bool" where
  "has_string_date (JObj items) =
     (case map_of items (ustr ''date'') of None \<Rightarrow> True | Some (JStr s) \<Rightarrow> True | Some v \<Rightarrow> False)"
| "has_string_date x = False"

fun date_string :: "json \<Rightarrow> pystr" where
  "date_string (JObj items) =
     (case map_of items (ustr ''date'') of Some (JStr s) \<Rightarrow> s | _ \<Rightarrow> [])"
| "date_string x = []"

text \<open>
  A per-chunk summary record: a dictionary whose \<^verbatim>\<open>main_points\<close>, \<^verbatim>\<open>important_data\<close>
  and \<^verbatim>\<open>conclusions\<close> are lists where present; \<open>field_list\<close> reads such a list. The
  consolidation has failed when its request raised, its reply did not parse, or the parsed
  value is not a dictionary.
\<close>

fun list_or_absent :: "(pystr \<times> json) list \<Rightarrow> pystr \<Rightarrow> bool" where
  "list_or_absent items key =
     (case map_of items key of None \<Rightarrow> True | Some (JArr xs) \<Rightarrow> True | Some v \<Rightarrow> False)"

fun summary_record :: "json \<Rightarrow> bool" where
  "summary_record (JObj items) =
     (list_or_absent items (ustr ''main_points'') \<and>
      list_or_absent items (ustr ''important_data'') \<and>
      list_or_absent items (ustr ''conclusions''))"
| "summary_record x = False"

fun field_list :: "pystr \<Rightarrow> json \<Rightarrow> json list" where
  "field_list key (JObj items) = (case map_of items key of Some (JArr xs) \<Rightarrow> xs | _ \<Rightarrow> [])"
| "field_list key x = []"

fun consolidation_failed :: "reply \<Rightarrow> bool" where
  "consolidation_failed Raised = True"
| "consolidation_failed (Content c None) = True"
| "consolidation_failed (Content c (Some (JObj items))) = False"
| "consolidation_failed (Content c (Some x)) = True"

text \<open>Concrete inputs: an event with a date, a summary record with one main point.\<close>

definition event :: "string \<Rightarrow> string \<Rightarrow> json" where
  "event d e =
     JObj [(ustr ''date'', JStr (ustr d)), (ustr ''event'', JStr (ustr e)),
           (ustr ''importance'', JStr (ustr ''alta''))]"

definition events_reply :: "json list \<Rightarrow> reply" where
  "events_reply es = Content [] (Some (JObj [(ustr ''events'', JArr es)]))"

definition one_point :: "string \<Rightarrow> json" where
  "one_point p =
     JObj [(ustr ''main_points'', JArr [JStr (ustr p)]), (ustr ''important_data'', JArr []),
           (ustr ''conclusions'', JArr [])]"

definition timeline_llm :: "nat \<Rightarrow> reply" where
  "timeline_llm n =
     (if n = 0 then events_reply [event ''2024-03-01'' ''launch'']
      else if n = 1 then events_reply [event ''2024-01-15'' ''kickoff'']
      else if n = 2 then events_reply [event ''2024-02-10'' ''review'']
      else Raised)"

definition summary_llm :: "nat \<Rightarrow> reply" where
  "summary_llm n =
     (if n = 0 then Content [] (Some (one_point ''p1''))
      else if n = 1 then Content [] (Some (one_point ''p2''))
      else if n = 2 then Content [] (Some (one_point ''p3''))
      else Raised)"

definition three_chunks :: "pystr list" where
  "three_chunks = [ustr ''First part.'', ustr ''Second part.'', ustr ''Third part.'']"

text \<open>
  A reply to the timeline request in which one event has the date \<^verbatim>\<open>null\<close>:
  \<^verbatim>\<open>{"events": [{"date": null, "event": "signing"}, {"date": "2024-01-15", "event":
  "kickoff"}]}\<close>; and a collaborator that cannot be reached.
\<close>

definition null_date_llm :: "nat \<Rightarrow> reply" where
  "null_date_llm n =
     events_reply
       [JObj [(ustr ''date'', JNull), (ustr ''event'', JStr (ustr ''signing''))],
        event ''2024-01-15'' ''kickoff'']"

definition unreachable_llm :: "nat \<Rightarrow> reply" where
  "unreachable_llm n = Raised"

definition six_points :: json where
  "six_points =
     JObj [(ustr ''main_points'',
              JArr [JStr (ustr ''p1''), JStr (ustr ''p2''), JStr (ustr ''p3''), JStr (ustr ''p4''),
                    JStr (ustr ''p5''), JStr (ustr ''p6'')]),
           (ustr ''important_data'', JArr [JStr (ustr ''d1'')]),
           (ustr ''conclusions'',
              JArr [JStr (ustr ''c1''), JStr (ustr ''c2''), JStr (ustr ''c3''), JStr (ustr ''c4'')])]"

text \<open>
  Replies that parse but do not have the requested shape: a date list inside the
  \<^verbatim>\<open>dates\<close> category (\<^verbatim>\<open>{"dates": [["2024", "01"]]}\<close>), and a list where a summary
  dictionary was requested (\<^verbatim>\<open>["p1"]\<close>).
\<close>

definition nested_dates_llm :: "nat \<Rightarrow> reply" where
  "nested_dates_llm n =
     Content [] (Some (JObj [(ustr ''dates'', JArr [JArr [JStr (ustr ''2024''), JStr (ustr ''01'')]])]))"

definition list_reply_llm :: "nat \<Rightarrow> reply" where
  "list_reply_llm n = Content [] (Some (JArr [JStr (ustr ''p1'')]))"

definition contract_doc :: text_content where
  "contract_doc = word_doc (ustr ''Signed in March. Started in January.'')"

section \<open>Folder ingestion (chatbot.py, process\_folder)\<close>


















section \<open>Lemmas about the chunker\<close>

lemma last_dropWhile: "dropWhile P xs \<noteq> [] \<Longrightarrow> last (dropWhile P xs) = last xs"
  by (induction xs) (auto split: if_splits)

lemma dropWhile_hd_id: "xs \<noteq> [] \<Longrightarrow> \<not> P (hd xs) \<Longrightarrow> dropWhile P xs = xs"
  by (cases xs) auto

lemma strip_id: "s \<noteq> [] \<Longrightarrow> \<not> is_space (hd s) \<Longrightarrow> \<not> is_space (last s) \<Longrightarrow> py_strip s = s"
  by (simp add: py_strip_def dropWhile_hd_id hd_rev)

lemma strip_ends:
  assumes "py_strip s \<noteq> []"
  shows "\<not> is_space (hd (py_strip s))" and "\<not> is_space (last (py_strip s))"
proof -
  let ?a = "dropWhile is_space s"
  let ?b = "dropWhile is_space (rev ?a)"
  have b: "?b \<noteq> []" using assms by (simp add: py_strip_def)
  then have hb: "\<not> is_space (hd ?b)" using hd_dropWhile by blast
  have ane: "?a \<noteq> []"
  proof
    assume "?a = []"
    then have "?b = []" by (simp only: rev.simps dropWhile.simps)
    with b show False ..
  qed
  then have ha: "\<not> is_space (hd ?a)" using hd_dropWhile by blast
  have "last ?b = last (rev ?a)" using b by (rule last_dropWhile)
  then have "last ?b = hd ?a" using ane by (simp add: last_rev)
  then show "\<not> is_space (hd (py_strip s))" using ha b by (simp add: py_strip_def hd_rev)
  show "\<not> is_space (last (py_strip s))" using hb b by (simp add: py_strip_def last_rev)
qed

lemma set_strip: "set (py_strip s) \<subseteq> set s"
proof -
  have "set (py_strip s) \<subseteq> set (dropWhile is_space s)"
    unfolding py_strip_def using set_dropWhileD by fastforce
  then show ?thesis using set_dropWhileD by fastforce
qed

lemma re_split_unfold:
  "re_split s =
     (if dropWhile (\<lambda>c. \<not> is_term c) s = [] then [takeWhile (\<lambda>c. \<not> is_term c) s]
      else takeWhile (\<lambda>c. \<not> is_term c) s #
           re_split (dropWhile is_term (dropWhile (\<lambda>c. \<not> is_term c) s)))"
  by (subst re_split.simps) (simp add: Let_def)

lemma re_split_no_term: "p \<in> set (re_split s) \<Longrightarrow> c \<in> set p \<Longrightarrow> \<not> is_term c"
proof (induction s arbitrary: p rule: re_split.induct)
  case (1 s)
  let ?piece = "takeWhile (\<lambda>c. \<not> is_term c) s"
  let ?rest = "dropWhile (\<lambda>c. \<not> is_term c) s"
  have piece: "c \<in> set ?piece \<Longrightarrow> \<not> is_term c"
    using set_takeWhileD by fastforce
  show ?case
  proof (cases "?rest = []")
    case True
    then have "re_split s = [?piece]" by (subst re_split_unfold) (simp only: True if_True simp_thms)
    then have "p = ?piece" using "1.prems"(1) by simp
    then show ?thesis using "1.prems"(2) piece by simp
  next
    case False
    then have "re_split s = ?piece # re_split (dropWhile is_term ?rest)"
      by (subst re_split_unfold) (simp only: False if_False simp_thms)
    then have "p = ?piece \<or> p \<in> set (re_split (dropWhile is_term ?rest))"
      using "1.prems"(1) by simp
    then show ?thesis
    proof
      assume "p = ?piece" then show ?thesis using "1.prems"(2) piece by simp
    next
      assume "p \<in> set (re_split (dropWhile is_term ?rest))"
      then show ?thesis using "1.IH" [OF refl refl False] "1.prems"(2) by blast
    qed
  qed
qed

lemma sentences_clean: "s \<in> set (sentences_of t) \<Longrightarrow> clean s"
proof -
  assume "s \<in> set (sentences_of t)"
  then obtain p where p: "p \<in> set (re_split t)" and s: "s = py_strip p" and ne: "s \<noteq> []"
    by (auto simp: sentences_of_def)
  have "\<forall>c\<in>set s. \<not> is_term c" using re_split_no_term [OF p] set_strip s by blast
  then show "clean s" using strip_ends [of p] s ne by (simp add: clean_def list_all_iff)
qed

lemma re_split_piece:
  assumes "list_all (\<lambda>c. \<not> is_term c) p" and "is_term t"
  shows "re_split (p @ t # rest) = p # re_split (dropWhile is_term rest)"
proof -
  have np: "\<forall>c\<in>set p. \<not> is_term c" using assms(1) by (simp add: list_all_iff)
  have 1: "takeWhile (\<lambda>c. \<not> is_term c) (p @ t # rest) = p"
    using np assms(2) by (simp add: takeWhile_append2)
  have 2: "dropWhile (\<lambda>c. \<not> is_term c) (p @ t # rest) = t # rest"
    using np assms(2) by (simp add: dropWhile_append2)
  show ?thesis
    by (subst re_split.simps) (simp add: 1 2 Let_def assms(2))
qed

lemma re_split_plain:
  assumes "list_all (\<lambda>c. \<not> is_term c) p"
  shows "re_split p = [p]"
proof -
  have np: "\<forall>c\<in>set p. \<not> is_term c" using assms(1) by (simp add: list_all_iff)
  then have 1: "takeWhile (\<lambda>c. \<not> is_term c) p = p" by simp
  have 2: "dropWhile (\<lambda>c. \<not> is_term c) p = []" using np by simp
  show ?thesis
    by (subst re_split.simps) (simp add: 1 2 Let_def)
qed

lemma dot_space: "ustr ''. '' = [46, 32]"
  by (simp add: ustr_def)

lemma render_Nil: "render [] = []"
  by (simp add: render_def)

lemma render_Cons: "render (s # g) = s @ [46, 32] @ render g"
  by (simp add: render_def dot_space)

lemma render_append: "render (g @ h) = render g @ render h"
  by (simp add: render_def)

lemma render_eq_Nil: "render g = [] \<longleftrightarrow> g = []"
  by (cases g) (simp_all add: render_Nil render_Cons)

lemma render_snoc: "render (g @ [s]) = render g @ s @ [46, 32]"
  by (simp add: render_append render_Cons render_Nil)

lemma length_render_snoc: "length (render (g @ [s])) = length (render g) + length s + 2"
  by (simp add: render_snoc)

lemma space_32: "is_space 32"
  by (simp add: is_space_def)

lemma not_space_46: "\<not> is_space 46"
  by (simp add: is_space_def)

lemma hd_render: "g \<noteq> [] \<Longrightarrow> hd g \<noteq> [] \<Longrightarrow> hd (render g) = hd (hd g)"
  by (cases g) (simp_all add: render_Cons)

lemma seal_butlast:
  assumes "g \<noteq> []" and "clean (hd g)"
  shows "seal g = butlast (render g)"
proof -
  obtain Y where Y: "render g = Y @ [46, 32]"
    using render_snoc [of "butlast g" "last g"] assms(1) by simp
  have ne: "render g \<noteq> []" using assms(1) by (simp add: render_eq_Nil)
  have "\<not> is_space (hd (render g))"
    using assms hd_render [of g] by (simp add: clean_def)
  then have "dropWhile is_space (render g) = render g"
    using ne by (simp add: dropWhile_hd_id)
  then have "py_strip (render g) = rev (dropWhile is_space (rev (Y @ [46, 32])))"
    by (simp add: py_strip_def Y)
  also have "\<dots> = Y @ [46]" by (simp add: space_32 not_space_46)
  finally show ?thesis by (simp add: seal_def Y butlast_append)
qed

lemma butlast_render_single: "butlast (render [s]) = s @ [46]"
  by (simp add: render_Cons render_Nil butlast_append)

lemma butlast_render_Cons: "g \<noteq> [] \<Longrightarrow> butlast (render (s # g)) = s @ [46, 32] @ butlast (render g)"
  by (simp add: render_Cons butlast_append render_eq_Nil)

lemma is_term_46: "is_term 46"
  by (simp add: is_term_def)

lemma not_term_32: "\<not> is_term 32"
  by (simp add: is_term_def)

lemma re_split_space_group:
  "list_all clean g \<Longrightarrow> g \<noteq> [] \<Longrightarrow> re_split (32 # butlast (render g)) = map ((#) 32) g @ [[]]"
proof (induction g)
  case Nil
  then show ?case by simp
next
  case (Cons s g)
  have nt: "list_all (\<lambda>c. \<not> is_term c) (32 # s)"
    using Cons.prems(1) by (simp add: clean_def not_term_32)
  show ?case
  proof (cases "g = []")
    case True
    have "re_split ((32 # s) @ 46 # []) = (32 # s) # re_split (dropWhile is_term [])"
      using nt is_term_46 by (rule re_split_piece)
    moreover have "re_split [] = [[]]" by (simp add: re_split_plain)
    ultimately show ?thesis using True by (simp add: butlast_render_single)
  next
    case False
    have "re_split ((32 # s) @ 46 # (32 # butlast (render g))) =
            (32 # s) # re_split (dropWhile is_term (32 # butlast (render g)))"
      using nt is_term_46 by (rule re_split_piece)
    then have "re_split (32 # butlast (render (s # g))) = (32 # s) # re_split (32 # butlast (render g))"
      using False by (simp add: butlast_render_Cons not_term_32)
    then show ?thesis using Cons.IH Cons.prems(1) False by simp
  qed
qed

lemma re_split_group:
  assumes "list_all clean (s # g)"
  shows "re_split (butlast (render (s # g))) = s # map ((#) 32) g @ [[]]"
proof -
  have nt: "list_all (\<lambda>c. \<not> is_term c) s" using assms by (simp add: clean_def)
  show ?thesis
  proof (cases "g = []")
    case True
    have "re_split (s @ 46 # []) = s # re_split (dropWhile is_term [])"
      using nt is_term_46 by (rule re_split_piece)
    moreover have "re_split [] = [[]]" by (simp add: re_split_plain)
    ultimately show ?thesis using True by (simp add: butlast_render_single)
  next
    case False
    have "re_split (s @ 46 # (32 # butlast (render g))) =
            s # re_split (dropWhile is_term (32 # butlast (render g)))"
      using nt is_term_46 by (rule re_split_piece)
    then have "re_split (butlast (render (s # g))) = s # re_split (32 # butlast (render g))"
      using False by (simp add: butlast_render_Cons not_term_32)
    then show ?thesis using re_split_space_group [of g] assms False by simp
  qed
qed

lemma strip_clean: "clean s \<Longrightarrow> py_strip s = s"
  by (simp add: clean_def strip_id)

lemma strip_space_clean: "clean s \<Longrightarrow> py_strip (32 # s) = s"
proof -
  assume c: "clean s"
  have "dropWhile is_space (32 # s) = s"
    using c by (simp add: space_32 clean_def dropWhile_hd_id)
  then have "py_strip (32 # s) = rev (dropWhile is_space (rev s))" by (simp add: py_strip_def)
  also have "\<dots> = s" using c by (simp add: clean_def dropWhile_hd_id hd_rev)
  finally show ?thesis .
qed

lemma strip_Nil: "py_strip [] = []"
  by (simp add: py_strip_def)

lemma sentences_of_seal:
  assumes "g \<noteq> []" and "list_all clean g"
  shows "sentences_of (seal g) = g"
proof -
  obtain s g' where g: "g = s # g'" using assms(1) by (cases g) auto
  have cs: "clean s" and cg: "list_all clean g'" using assms(2) g by simp_all
  have 1: "seal g = butlast (render g)" using seal_butlast [of g] g cs by simp
  have 2: "re_split (butlast (render g)) = s # map ((#) 32) g' @ [[]]"
    using re_split_group assms(2) g by simp
  have 3: "map py_strip (map ((#) 32) g') = g'"
    using cg by (induction g') (simp_all add: strip_space_clean)
  have 4: "filter (\<lambda>s. s \<noteq> []) g' = g'"
    using cg by (induction g') (simp_all add: clean_def)
  have "map py_strip (re_split (seal g)) = s # g' @ [[]]"
    using 1 2 3 cs by (simp add: strip_clean strip_Nil)
  then show ?thesis using 4 cs g by (simp add: sentences_of_def clean_def)
qed

lemma length_seal: "g \<noteq> [] \<Longrightarrow> clean (hd g) \<Longrightarrow> length (seal g) = length (render g) - 1"
  by (simp add: seal_butlast)

lemma fits_of_cur:
  assumes "g \<noteq> []" and "list_all clean g" and "g = [] \<or> fits_cur m g"
  shows "fits m g"
proof -
  have "clean (hd g)" using assms(1,2) by (cases g) simp_all
  then have "length (seal g) = length (render g) - 1" using assms(1) by (simp add: length_seal)
  moreover have "0 < length (render g)" using assms(1) by (simp add: render_eq_Nil)
  ultimately have "int (length (seal g)) = int (length (render g)) - 1" by linarith
  then show ?thesis using assms(1,3) unfolding fits_def fits_cur_def by auto
qed

lemma chunk_loop_groups:
  "list_all clean g \<Longrightarrow> list_all (\<lambda>p. \<forall>c\<in>set p. \<not> is_term c) ps \<Longrightarrow> g = [] \<or> fits_cur m g \<Longrightarrow>
   \<exists>groups. chunk_loop m ps chunks (render g) = chunks @ map seal groups
     \<and> concat groups = g @ filter (\<lambda>s. s \<noteq> []) (map py_strip ps)
     \<and> [] \<notin> set groups \<and> list_all (fits m) groups"
proof (induction ps arbitrary: chunks g)
  case Nil
  show ?case
  proof (cases "g = []")
    case True
    then have "chunk_loop m [] chunks (render g) = chunks @ map seal []"
      by (simp add: render_Nil)
    then show ?thesis using True by (intro exI [of _ "[]"]) simp
  next
    case False
    then have "chunk_loop m [] chunks (render g) = chunks @ map seal [g]"
      by (simp add: render_eq_Nil seal_def)
    moreover have "fits m g"
      using False Nil.prems(1) Nil.prems(3) by (rule fits_of_cur)
    ultimately show ?thesis using False by (intro exI [of _ "[g]"]) simp
  qed
next
  case (Cons p ps)
  let ?s = "py_strip p"
  have ps: "list_all (\<lambda>p. \<forall>c\<in>set p. \<not> is_term c) ps" using Cons.prems(2) by simp
  show ?case
  proof (cases "?s = []")
    case True
    then have "chunk_loop m (p # ps) chunks (render g) = chunk_loop m ps chunks (render g)"
      by simp
    then show ?thesis using Cons.IH [OF Cons.prems(1) ps Cons.prems(3), of chunks] True by simp
  next
    case False
    have cs: "clean ?s"
    proof -
      have "\<forall>c\<in>set ?s. \<not> is_term c" using Cons.prems(2) set_strip [of p] by auto
      then show ?thesis using strip_ends [of p] False by (simp add: clean_def list_all_iff)
    qed
    show ?thesis
    proof (cases "int (length (render g @ ?s)) \<le> m")
      case True
      have step: "chunk_loop m (p # ps) chunks (render g) = chunk_loop m ps chunks (render (g @ [?s]))"
        using False True by (simp add: Let_def render_snoc dot_space)
      have c': "list_all clean (g @ [?s])" using Cons.prems(1) cs by simp
      have f': "g @ [?s] = [] \<or> fits_cur m (g @ [?s])"
        using True by (simp add: fits_cur_def length_render_snoc)
      from Cons.IH [OF c' ps f', of chunks] step show ?thesis using False by simp
    next
      case nofit: False
      have f': "[?s] = [] \<or> fits_cur m [?s]"
      proof (cases "m < int (length ?s)")
        case True then show ?thesis by (simp add: fits_cur_def)
      next
        case False then show ?thesis by (simp add: fits_cur_def render_Cons render_Nil)
      qed
      have c': "list_all clean [?s]" using cs by simp
      show ?thesis
      proof (cases "g = []")
        case True
        have step: "chunk_loop m (p # ps) chunks (render g) = chunk_loop m ps chunks (render [?s])"
          using False nofit True by (simp add: Let_def render_Cons render_Nil dot_space)
        from Cons.IH [OF c' ps f', of chunks] step show ?thesis using False True by simp
      next
        case gne: False
        have step: "chunk_loop m (p # ps) chunks (render g) = chunk_loop m ps (chunks @ [seal g]) (render [?s])"
          using False nofit gne by (simp add: Let_def render_Cons render_Nil dot_space render_eq_Nil seal_def)
        from Cons.IH [OF c' ps f', of "chunks @ [seal g]"] obtain groups where
          G: "chunk_loop m ps (chunks @ [seal g]) (render [?s]) = (chunks @ [seal g]) @ map seal groups"
             "concat groups = [?s] @ filter (\<lambda>s. s \<noteq> []) (map py_strip ps)"
             "[] \<notin> set groups" "list_all (fits m) groups" by blast
        have fg: "fits m g"
          using gne Cons.prems(1) Cons.prems(3) by (rule fits_of_cur)
        show ?thesis
          using step G fg gne False by (intro exI [of _ "g # groups"]) simp
      qed
    qed
  qed
qed

lemma chunk_text_groups:
  "\<exists>groups. chunk_text t m = map seal groups \<and> concat groups = sentences_of t
     \<and> [] \<notin> set groups \<and> list_all (fits m) groups"
proof -
  have ps: "list_all (\<lambda>p. \<forall>c\<in>set p. \<not> is_term c) (re_split t)"
    using re_split_no_term by (auto simp: list_all_iff)
  have "list_all clean []" by simp
  from chunk_loop_groups [OF this ps, of m "[]"] show ?thesis
    by (simp add: chunk_text_def sentences_of_def render_Nil)
qed

lemma seal_space: "g \<noteq> [] \<Longrightarrow> clean (hd g) \<Longrightarrow> seal g @ [32] = render g"
proof -
  assume g: "g \<noteq> []" and c: "clean (hd g)"
  have "render g = render (butlast g) @ last g @ [46, 32]"
    using render_snoc [of "butlast g" "last g"] g by simp
  then have "last (render g) = 32" by simp
  moreover have "render g \<noteq> []" using g by (simp add: render_eq_Nil)
  ultimately have "butlast (render g) @ [32] = render g"
    using append_butlast_last_id by fastforce
  then show ?thesis using g c by (simp add: seal_butlast)
qed

lemma groups_clean:
  assumes "concat groups = sentences_of t" and "g \<in> set groups"
  shows "list_all clean g"
proof -
  have "set g \<subseteq> set (sentences_of t)" using assms by (metis set_concat UN_upper subsetI Sup_upper image_eqI)
  then show ?thesis using sentences_clean by (auto simp: list_all_iff)
qed

lemma chunk_text_roundtrip: "concat (map sentences_of (chunk_text t m)) = sentences_of t"
proof -
  obtain groups where G: "chunk_text t m = map seal groups" "concat groups = sentences_of t"
    "[] \<notin> set groups" using chunk_text_groups by blast
  have "sentences_of (seal g) = g" if "g \<in> set groups" for g
    using that G(3) groups_clean [OF G(2) that] by (intro sentences_of_seal) auto
  then have "map sentences_of (map seal groups) = groups"
    by (simp add: map_idI)
  then show ?thesis using G by simp
qed

lemma chunk_text_join: "concat (map (\<lambda>c. c @ [32]) (chunk_text t m)) = render (sentences_of t)"
proof -
  obtain groups where G: "chunk_text t m = map seal groups" "concat groups = sentences_of t"
    "[] \<notin> set groups" using chunk_text_groups by blast
  have 1: "seal g @ [32] = render g" if "g \<in> set groups" for g
  proof -
    have "g \<noteq> []" using that G(3) by auto
    moreover have "clean (hd g)" using groups_clean [OF G(2) that] \<open>g \<noteq> []\<close> by (cases g) simp_all
    ultimately show ?thesis by (rule seal_space)
  qed
  have "concat (map (\<lambda>c. c @ [32]) (map seal groups)) = concat (map render groups)"
    using 1 by (simp add: comp_def cong: map_cong)
  also have "\<dots> = render (concat groups)"
    by (induction groups) (simp_all add: render_Nil render_append)
  finally show ?thesis using G by simp
qed

lemma chunk_text_empty: "chunk_text [] m = []"
  by (simp add: chunk_text_def re_split_plain strip_Nil)

lemma chunk_text_shape:
  assumes "c \<in> set (chunk_text t m)"
  shows "c \<noteq> [] \<and> last c = 46 \<and> py_strip c = c"
proof -
  obtain groups where G: "chunk_text t m = map seal groups" "concat groups = sentences_of t"
    "[] \<notin> set groups" using chunk_text_groups by blast
  then obtain g where g: "g \<in> set groups" "c = seal g" using assms by auto
  have ne: "g \<noteq> []" using g(1) G(3) by auto
  have cl: "list_all clean g" using groups_clean [OF G(2) g(1)] .
  have ch: "clean (hd g)" using cl ne by (cases g) simp_all
  have r: "render g = render (butlast g) @ last g @ [46, 32]"
    using render_snoc [of "butlast g" "last g"] ne by simp
  have c: "c = render (butlast g) @ last g @ [46]"
    using g(2) seal_butlast [OF ne ch] r by (simp add: butlast_append)
  have "hd c = hd (hd g)"
    using seal_butlast [OF ne ch] g(2) hd_render [of g] ne ch
    by (metis clean_def hd_append2 r c append_is_Nil_conv hd_append list.sel(1) not_Cons_self2 render_eq_Nil)
  then have "\<not> is_space (hd c)" using ch by (simp add: clean_def)
  moreover have "last c = 46" using c by simp
  moreover have "c \<noteq> []" using c by simp
  ultimately show ?thesis by (simp add: strip_id not_space_46)
qed

lemma chunk_text_bound:
  assumes "c \<in> set (chunk_text t m)"
  shows "int (length c) \<le> m + 1 \<or> (\<exists>s\<in>set (sentences_of t). c = s @ [46] \<and> m < int (length s))"
proof -
  obtain groups where G: "chunk_text t m = map seal groups" "concat groups = sentences_of t"
    "[] \<notin> set groups" "list_all (fits m) groups" using chunk_text_groups by blast
  then obtain g where g: "g \<in> set groups" "c = seal g" using assms by auto
  have f: "fits m g" using G(4) g(1) by (simp add: list_all_iff)
  have cl: "list_all clean g" using groups_clean [OF G(2) g(1)] .
  show ?thesis
  proof (cases "int (length (seal g)) \<le> m + 1")
    case True then show ?thesis using g(2) by simp
  next
    case False
    then obtain s where s: "g = [s]" "m < int (length s)" using f by (auto simp: fits_def)
    have "s \<in> set (sentences_of t)" using s(1) g(1) G(2) by (metis list.set_intros(1) set_concat UN_I)
    moreover have "c = s @ [46]"
      using g(2) s(1) cl seal_butlast [of g] by (simp add: butlast_render_single)
    ultimately show ?thesis using s(2) by blast
  qed
qed

lemma chunk_text_single:
  assumes "clean s" and "int (length s) \<le> m"
  shows "chunk_text s m = [s @ [46]]"
proof -
  have "re_split s = [s]" using assms(1) by (simp add: re_split_plain clean_def)
  moreover have "py_strip s = s" using assms(1) by (rule strip_clean)
  moreover have "s \<noteq> []" using assms(1) by (simp add: clean_def)
  moreover have "py_strip (s @ [46, 32]) = s @ [46]"
    using seal_butlast [of "[s]"] assms(1) by (simp add: seal_def render_Cons render_Nil butlast_append)
  ultimately show ?thesis using assms(2) by (simp add: chunk_text_def Let_def dot_space)
qed

section \<open>Claims about the chunker\<close>

lemmas chunker_eval = create_chunks_def word_doc_def pdf_doc_def chunk_text_def ustr_def
  re_split.simps py_strip_def is_space_def is_term_def sentences_of_def render_def
  spec_max_chunk_size_def Let_def

lemma create_chunks_Inr:
  "create_chunks tc m = Inr chunks \<Longrightarrow> \<exists>m'. chunks = chunk_text (full_text tc) m'"
  by (auto simp: create_chunks_def split: if_splits option.splits)

lemma create_chunks_returns:
  "document_type (metadata tc) \<noteq> ustr ''PDF'' \<or> total_pages (metadata tc) \<noteq> None \<Longrightarrow>
     \<exists>chunks. create_chunks tc m = Inr chunks"
  by (auto simp: create_chunks_def)

lemma clean_replicate: "0 < n \<Longrightarrow> clean (replicate n 97)"
  by (simp add: clean_def is_space_def is_term_def list_all_iff hd_replicate last_replicate)

text \<open>
  C1. The claim: every chunk has at most \<open>max_chunk_size\<close> characters, unless it is one
  sentence that is itself longer than \<open>max_chunk_size\<close>. The code does not keep this bound:
  the test \<^verbatim>\<open>len(current_chunk + sentence) <= max_chunk_size\<close> is made before the
  sentence's \<^verbatim>\<open>". "\<close> is added. A Word document whose text is one sentence of 4000
  letters, chunked with the default size 4000, gives one chunk of 4001 characters, and the
  sentence is not longer than the maximum. With \<open>max_chunk_size = 6\<close> the text
  \<^verbatim>\<open>ab. cd\<close> gives the single chunk \<^verbatim>\<open>ab. cd.\<close> of 7 characters, made of two
  sentences.
\<close>

theorem chunk_exceeds_max_chunk_size:
  "create_chunks (word_doc (replicate 4000 97)) 4000 = Inr [replicate 4000 97 @ [46]] \<and>
   sentences_of (replicate 4000 97) = [replicate 4000 97] \<and>
   length (replicate 4000 97 @ [46]) = 4001 \<and>
   create_chunks (word_doc (ustr ''ab. cd'')) 6 = Inr [ustr ''ab. cd.''] \<and>
   sentences_of (ustr ''ab. cd'') = [ustr ''ab'', ustr ''cd''] \<and>
   length (ustr ''ab. cd.'') = 7"
proof -
  have c: "clean (replicate 4000 97)" by (simp add: clean_replicate)
  have 1: "chunk_text (replicate 4000 97) 4000 = [replicate 4000 97 @ [46]]"
    using c by (rule chunk_text_single) simp
  have 2: "sentences_of (replicate 4000 97) = [replicate 4000 97]"
    using c by (simp add: sentences_of_def re_split_plain strip_clean clean_def)
  have 3: "create_chunks (word_doc (replicate 4000 97)) 4000 = Inr [replicate 4000 97 @ [46]]"
    using 1 by (simp add: create_chunks_def word_doc_def ustr_def)
  have 4: "create_chunks (word_doc (ustr ''ab. cd'')) 6 = Inr [ustr ''ab. cd.'']"
    by (simp add: chunker_eval)
  have 5: "sentences_of (ustr ''ab. cd'') = [ustr ''ab'', ustr ''cd'']"
    by (simp add: chunker_eval)
  show ?thesis using 2 3 4 5 by (simp add: ustr_def)
qed

text \<open>
  The bound the loop does keep: a chunk has at most \<open>max_chunk_size + 1\<close> characters,
  unless it is one sentence longer than \<open>max_chunk_size\<close> followed by its period.
\<close>

theorem chunk_length_bound:
  "create_chunks tc max_chunk_size = Inr chunks \<Longrightarrow> c \<in> set chunks \<Longrightarrow>
     \<exists>m. (m = max_chunk_size \<or> m = 5000 \<or> m = 6000) \<and>
       (int (length c) \<le> m + 1 \<or>
        (\<exists>s\<in>set (sentences_of (full_text tc)). c = s @ [46] \<and> m < int (length s)))"
proof -
  assume a: "create_chunks tc max_chunk_size = Inr chunks" and c: "c \<in> set chunks"
  from a obtain m where m: "m = max_chunk_size \<or> m = 5000 \<or> m = 6000"
    and ch: "chunks = chunk_text (full_text tc) m"
    by (auto simp: create_chunks_def split: if_splits option.splits)
  show ?thesis using chunk_text_bound [of c "full_text tc" m] c ch m by blast
qed

theorem chunk_length_bound_witness:
  "create_chunks (word_doc (ustr ''ab. cd'')) 6 = Inr [ustr ''ab. cd.''] \<and>
   ustr ''ab. cd.'' \<in> set [ustr ''ab. cd.''] \<and>
   (\<exists>m. (m = 6 \<or> m = 5000 \<or> m = 6000) \<and>
      (int (length (ustr ''ab. cd.'')) \<le> m + 1 \<or>
       (\<exists>s\<in>set (sentences_of (full_text (word_doc (ustr ''ab. cd'')))).
           ustr ''ab. cd.'' = s @ [46] \<and> m < int (length s))))"
proof -
  have e: "create_chunks (word_doc (ustr ''ab. cd'')) 6 = Inr [ustr ''ab. cd.'']"
    by (simp add: chunker_eval)
  have i: "ustr ''ab. cd.'' \<in> set [ustr ''ab. cd.'']" by simp
  show ?thesis using e i chunk_length_bound [OF e i] by blast
qed

text \<open>
  C3. The chunker returns for every document but a PDF whose metadata has no page count
  (reading it raises \<^verbatim>\<open>KeyError\<close>). Reading the sentences back from the chunks gives
  the sentences of the input text, in order, each once; the chunks, each followed by one
  space, concatenate to the sentences each followed by a period and a space; and an empty
  text gives no chunk.
\<close>

theorem chunks_reconstruct_sentences:
  "document_type (metadata tc) \<noteq> ustr ''PDF'' \<or> total_pages (metadata tc) \<noteq> None \<Longrightarrow>
     (\<exists>chunks.
        create_chunks tc max_chunk_size = Inr chunks \<and>
        concat (map sentences_of chunks) = sentences_of (full_text tc) \<and>
        concat (map (\<lambda>c. c @ ustr '' '') chunks) = render (sentences_of (full_text tc)) \<and>
        (full_text tc = [] \<longrightarrow> chunks = []))"
proof -
  assume "document_type (metadata tc) \<noteq> ustr ''PDF'' \<or> total_pages (metadata tc) \<noteq> None"
  then obtain chunks where r: "create_chunks tc max_chunk_size = Inr chunks"
    by (rule create_chunks_returns [THEN exE])
  then obtain m' where c: "chunks = chunk_text (full_text tc) m'"
    using create_chunks_Inr by blast
  have sp: "ustr '' '' = [32]" by (simp add: ustr_def)
  have "concat (map sentences_of chunks) = sentences_of (full_text tc) \<and>
        concat (map (\<lambda>c. c @ ustr '' '') chunks) = render (sentences_of (full_text tc)) \<and>
        (full_text tc = [] \<longrightarrow> chunks = [])"
    unfolding c sp using chunk_text_roundtrip chunk_text_join chunk_text_empty by simp
  then show ?thesis using r by blast
qed

theorem chunks_reconstruct_sentences_witness:
  "document_type (metadata (word_doc (ustr ''Hi! Why?  Ok''))) \<noteq> ustr ''PDF'' \<and>
   create_chunks (word_doc (ustr ''Hi! Why?  Ok'')) 8 = Inr [ustr ''Hi. Why.'', ustr ''Ok.''] \<and>
   sentences_of (ustr ''Hi! Why?  Ok'') = [ustr ''Hi'', ustr ''Why'', ustr ''Ok''] \<and>
   concat (map sentences_of [ustr ''Hi. Why.'', ustr ''Ok.'']) = [ustr ''Hi'', ustr ''Why'', ustr ''Ok''] \<and>
   concat (map (\<lambda>c. c @ ustr '' '') [ustr ''Hi. Why.'', ustr ''Ok.'']) = ustr ''Hi. Why. Ok. '' \<and>
   create_chunks (word_doc []) 8 = Inr [] \<and>
   full_text (word_doc []) = []"
proof -
  have n: "document_type (metadata (word_doc t)) \<noteq> ustr ''PDF''" for t
    by (simp add: word_doc_def ustr_def)
  have e: "create_chunks (word_doc (ustr ''Hi! Why?  Ok'')) 8 = Inr [ustr ''Hi. Why.'', ustr ''Ok.'']"
    by (simp add: chunker_eval)
  have s: "sentences_of (ustr ''Hi! Why?  Ok'') = [ustr ''Hi'', ustr ''Why'', ustr ''Ok'']"
    by (simp add: chunker_eval)
  have e0: "create_chunks (word_doc []) 8 = Inr []"
    by (simp add: chunker_eval)
  have j: "concat (map (\<lambda>c. c @ ustr '' '') [ustr ''Hi. Why.'', ustr ''Ok.'']) = ustr ''Hi. Why. Ok. ''"
    by (simp add: ustr_def)
  have f: "full_text (word_doc t) = t" for t by (simp add: word_doc_def)
  from chunks_reconstruct_sentences [OF disjI1 [OF n], of "ustr ''Hi! Why?  Ok''" 8]
  have r: "concat (map sentences_of [ustr ''Hi. Why.'', ustr ''Ok.'']) =
             sentences_of (ustr ''Hi! Why?  Ok'')"
    unfolding e f by simp
  from chunks_reconstruct_sentences [OF disjI1 [OF n], of "[]" 8]
  have r0: "create_chunks (word_doc []) 8 = Inr []"
    unfolding f by auto
  show ?thesis using n e s r j r0 f by simp
qed

text \<open>
  C6. With the default \<open>max_chunk_size = 4000\<close>, the size the loop runs with is the one the
  specification's rule gives for the page count of the metadata: 4000, 5000 for more than
  50 pages, 6000 for more than 100 pages, and nothing else of the document enters. The
  page count is read for a PDF only: \<open>total_pages\<close> is the key the PDF extractor sets, and
  the hypothesis says that the metadata has it exactly when the document is a PDF.
\<close>

theorem chunk_size_rule:
  "(total_pages (metadata tc) = None) = (document_type (metadata tc) \<noteq> ustr ''PDF'') \<Longrightarrow>
     create_chunks tc 4000 =
       Inr (chunk_text (full_text tc) (spec_max_chunk_size (total_pages (metadata tc))))"
  by (auto simp: create_chunks_def spec_max_chunk_size_def split: option.splits)

theorem chunk_size_rule_witness:
  "(total_pages (metadata (pdf_doc (ustr ''ab. cd'') 51)) = None) =
     (document_type (metadata (pdf_doc (ustr ''ab. cd'') 51)) \<noteq> ustr ''PDF'') \<and>
   (total_pages (metadata (word_doc (ustr ''ab. cd''))) = None) =
     (document_type (metadata (word_doc (ustr ''ab. cd''))) \<noteq> ustr ''PDF'') \<and>
   create_chunks (pdf_doc (ustr ''ab. cd'') 30) 4000 = Inr (chunk_text (ustr ''ab. cd'') 4000) \<and>
   create_chunks (pdf_doc (ustr ''ab. cd'') 50) 4000 = Inr (chunk_text (ustr ''ab. cd'') 4000) \<and>
   create_chunks (pdf_doc (ustr ''ab. cd'') 51) 4000 = Inr (chunk_text (ustr ''ab. cd'') 5000) \<and>
   create_chunks (pdf_doc (ustr ''ab. cd'') 100) 4000 = Inr (chunk_text (ustr ''ab. cd'') 5000) \<and>
   create_chunks (pdf_doc (ustr ''ab. cd'') 101) 4000 = Inr (chunk_text (ustr ''ab. cd'') 6000) \<and>
   create_chunks (word_doc (ustr ''ab. cd'')) 4000 = Inr (chunk_text (ustr ''ab. cd'') 4000)"
proof -
  have p: "(total_pages (metadata (pdf_doc (ustr ''ab. cd'') n)) = None) =
     (document_type (metadata (pdf_doc (ustr ''ab. cd'') n)) \<noteq> ustr ''PDF'')" for n
    by (simp add: pdf_doc_def)
  have w: "(total_pages (metadata (word_doc (ustr ''ab. cd''))) = None) =
     (document_type (metadata (word_doc (ustr ''ab. cd''))) \<noteq> ustr ''PDF'')"
    by (simp add: word_doc_def ustr_def)
  show ?thesis
    using p [of 51] w chunk_size_rule [OF p [of 30]] chunk_size_rule [OF p [of 50]]
      chunk_size_rule [OF p [of 51]] chunk_size_rule [OF p [of 100]]
      chunk_size_rule [OF p [of 101]] chunk_size_rule [OF w]
    by (simp add: pdf_doc_def word_doc_def spec_max_chunk_size_def)
qed

text \<open>
  C9. Every chunk the chunker returns is a non-empty string that ends with a period and
  has no whitespace at either end: it is a non-empty run of sentences of the text, each
  written with \<^verbatim>\<open>". "\<close> after it whatever its terminator was, without the last space.
\<close>

theorem chunk_ends_with_period:
  "document_type (metadata tc) \<noteq> ustr ''PDF'' \<or> total_pages (metadata tc) \<noteq> None \<Longrightarrow>
     (\<exists>chunks.
        create_chunks tc max_chunk_size = Inr chunks \<and>
        (\<forall>c\<in>set chunks.
           c \<noteq> [] \<and> last c = 46 \<and> py_strip c = c \<and>
           (\<exists>g. g \<noteq> [] \<and> set g \<subseteq> set (sentences_of (full_text tc)) \<and>
                c @ ustr '' '' = render g)))"
proof -
  assume "document_type (metadata tc) \<noteq> ustr ''PDF'' \<or> total_pages (metadata tc) \<noteq> None"
  then obtain chunks where a: "create_chunks tc max_chunk_size = Inr chunks"
    by (rule create_chunks_returns [THEN exE])
  from a obtain m where ch: "chunks = chunk_text (full_text tc) m"
    using create_chunks_Inr by blast
  obtain groups where G: "chunk_text (full_text tc) m = map seal groups"
    "concat groups = sentences_of (full_text tc)" "[] \<notin> set groups"
    using chunk_text_groups by blast
  have "c \<noteq> [] \<and> last c = 46 \<and> py_strip c = c \<and>
        (\<exists>g. g \<noteq> [] \<and> set g \<subseteq> set (sentences_of (full_text tc)) \<and> c @ ustr '' '' = render g)"
    if c: "c \<in> set chunks" for c
  proof -
    obtain g where g: "g \<in> set groups" "c = seal g" using c ch G(1) by auto
    have ne: "g \<noteq> []" using g(1) G(3) by auto
    have "clean (hd g)" using groups_clean [OF G(2) g(1)] ne by (cases g) simp_all
    then have "c @ [32] = render g" using g(2) ne by (simp add: seal_space)
    moreover have "set g \<subseteq> set (sentences_of (full_text tc))"
      using g(1) G(2) by (metis Sup_upper image_eqI set_concat)
    ultimately have "\<exists>g. g \<noteq> [] \<and> set g \<subseteq> set (sentences_of (full_text tc)) \<and>
        c @ ustr '' '' = render g"
      using ne by (auto simp: ustr_def)
    then show ?thesis using chunk_text_shape [of c "full_text tc" m] c ch by blast
  qed
  then show ?thesis using a by blast
qed

theorem chunk_ends_with_period_witness:
  "document_type (metadata (word_doc (ustr ''Hi! Why?  Ok''))) \<noteq> ustr ''PDF'' \<and>
   create_chunks (word_doc (ustr ''Hi! Why?  Ok'')) 8 = Inr [ustr ''Hi. Why.'', ustr ''Ok.''] \<and>
   list_all (\<lambda>c. c \<noteq> [] \<and> last c = 46 \<and> py_strip c = c) [ustr ''Hi. Why.'', ustr ''Ok.'']"
proof -
  have n: "document_type (metadata (word_doc (ustr ''Hi! Why?  Ok''))) \<noteq> ustr ''PDF''"
    by (simp add: word_doc_def ustr_def)
  have e: "create_chunks (word_doc (ustr ''Hi! Why?  Ok'')) 8 = Inr [ustr ''Hi. Why.'', ustr ''Ok.'']"
    by (simp add: chunker_eval)
  from chunk_ends_with_period [OF disjI1 [OF n], of 8]
  have "\<forall>c\<in>set [ustr ''Hi. Why.'', ustr ''Ok.'']. c \<noteq> [] \<and> last c = 46 \<and> py_strip c = c"
    unfolding e by auto
  then have "list_all (\<lambda>c. c \<noteq> [] \<and> last c = 46 \<and> py_strip c = c) [ustr ''Hi. Why.'', ustr ''Ok.'']"
    unfolding list_all_iff .
  then show ?thesis using n e by simp
qed

section \<open>Lemmas about the keyword search\<close>

lemma sum_list_indicator:
  "sum_list (map (\<lambda>x. if P x then 1 else 0) xs) = (length (filter P xs) :: nat)"
  by (induction xs) simp_all

lemma spec_score_pos:
  "0 < spec_score lower ws c \<longleftrightarrow> filter (\<lambda>word. py_in word (lower (ctext c))) ws \<noteq> []"
proof -
  let ?k = "length (filter (\<lambda>word. py_in word (lower (ctext c))) ws)"
  show ?thesis
  proof (cases "?k = 0")
    case True
    then show ?thesis by (simp add: spec_score_def)
  next
    case False
    then have "0 < ?k" by simp
    moreover have "0 < length ws" using False by (cases ws) auto
    ultimately have "0 < (of_nat ?k :: rat) / of_nat (length ws)" by simp
    then show ?thesis using False by (simp add: spec_score_def)
  qed
qed

lemma keyword_loop_spec:
  "keyword_loop lower ws chunks acc =
     Inr (acc @ filter (\<lambda>c. 0 < similarity c) (map (with_score lower ws) chunks))"
proof (induction chunks arbitrary: acc)
  case Nil
  then show ?case by simp
next
  case (Cons c chunks)
  let ?k = "length (filter (\<lambda>word. py_in word (lower (ctext c))) ws)"
  have sim: "similarity (with_score lower ws c) = spec_score lower ws c"
    by (simp add: with_score_def)
  show ?case
  proof (cases "0 < ?k")
    case True
    then have ws: "length ws \<noteq> 0" by (cases ws) auto
    have pos: "0 < spec_score lower ws c" using True by (simp add: spec_score_pos)
    have "keyword_loop lower ws (c # chunks) acc =
            keyword_loop lower ws chunks (acc @ [with_score lower ws c])"
      using True ws by (simp add: Let_def sum_list_indicator with_score_def spec_score_def)
    then show ?thesis using Cons.IH [of "acc @ [with_score lower ws c]"] pos sim by simp
  next
    case False
    then have npos: "\<not> 0 < spec_score lower ws c" by (simp add: spec_score_pos)
    have "keyword_loop lower ws (c # chunks) acc = keyword_loop lower ws chunks acc"
      using False by (simp add: Let_def sum_list_indicator)
    then show ?thesis using Cons.IH [of acc] npos sim by simp
  qed
qed

lemma sorted_rev_neg:
  fixes f :: "'a \<Rightarrow> rat"
  shows "sorted (map f zs) \<Longrightarrow> sorted (rev (map (\<lambda>x. - f x) zs))"
  by (induction zs) (auto simp: sorted_append)

lemma py_sort_reverse_stable_desc:
  fixes key :: "'a \<Rightarrow> rat"
  shows "py_sort_reverse key xs = sort_key (\<lambda>x. - key x) xs"
proof -
  let ?ys = "rev (sort_key key (rev xs))"
  have 1: "mset ?ys = mset xs" by simp
  have 2: "sorted (map (\<lambda>x. - key x) ?ys)"
  proof -
    have "sorted (map key (sort_key key (rev xs)))" by simp
    then have "sorted (rev (map (\<lambda>x. - key x) (sort_key key (rev xs))))"
      by (rule sorted_rev_neg)
    then show ?thesis by (simp add: rev_map)
  qed
  have 3: "filter (\<lambda>x. - key k = - key x) ?ys = filter (\<lambda>x. - key k = - key x) xs" for k
  proof -
    have "filter (\<lambda>x. key k = key x) (sort_key key (rev xs)) = filter (\<lambda>x. key k = key x) (rev xs)"
      using sort_key_stable [of key "key k" "rev xs"] by (simp add: eq_commute)
    then show ?thesis by (simp add: rev_filter [symmetric])
  qed
  show ?thesis
    unfolding py_sort_reverse_def
    by (rule properties_for_sort_key [symmetric]) (use 1 2 3 in auto)
qed

lemma py_in_iff: "py_in w t \<longleftrightarrow> (\<exists>p s. t = p @ w @ s)"
proof (induction t)
  case Nil
  then show ?case by auto
next
  case (Cons c cs)
  have pre: "take (length w) (c # cs) = w \<longleftrightarrow> (\<exists>s. c # cs = w @ s)"
    by (metis append_eq_conv_conj append_take_drop_id)
  show ?case
  proof
    assume "py_in w (c # cs)"
    then consider "take (length w) (c # cs) = w" | "py_in w cs" by auto
    then show "\<exists>p s. c # cs = p @ w @ s"
    proof cases
      case 1
      then obtain s where "c # cs = w @ s" using pre by blast
      then have "c # cs = [] @ w @ s" by simp
      then show ?thesis by blast
    next
      case 2
      then obtain p s where "cs = p @ w @ s" using Cons.IH by blast
      then have "c # cs = (c # p) @ w @ s" by simp
      then show ?thesis by blast
    qed
  next
    assume "\<exists>p s. c # cs = p @ w @ s"
    then obtain p s where ps: "c # cs = p @ w @ s" by blast
    show "py_in w (c # cs)"
    proof (cases p)
      case Nil
      then have "take (length w) (c # cs) = w" using ps pre by auto
      then show ?thesis by simp
    next
      case (Cons a p')
      then have "cs = p' @ w @ s" using ps by simp
      then have "py_in w cs" using Cons.IH by blast
      then show ?thesis by simp
    qed
  qed
qed

lemma keyword_search_eq:
  "keyword_search lower chunks query top_k =
     Inr (py_slice_to
            (sort_key (\<lambda>c. - similarity c)
               (filter (\<lambda>c. 0 < similarity c) (map (with_score lower (py_split (lower query))) chunks)))
            top_k)"
  by (simp add: keyword_search_def Let_def keyword_loop_spec py_sort_reverse_stable_desc)

lemma keyword_search_spec:
  "0 \<le> top_k \<Longrightarrow>
     keyword_search lower chunks query top_k = Inr (spec_keyword_search lower chunks query (nat top_k))"
  by (simp add: keyword_search_eq spec_keyword_search_def py_slice_to_def)

lemma spec_score_le_1: "spec_score lower ws c \<le> 1"
proof (cases "ws = []")
  case True
  then show ?thesis by (simp add: spec_score_def)
next
  case False
  have "length (filter (\<lambda>word. py_in word (lower (ctext c))) ws) \<le> length ws" by simp
  then have "(of_nat (length (filter (\<lambda>word. py_in word (lower (ctext c))) ws)) :: rat) \<le> of_nat (length ws)"
    by (simp only: of_nat_le_iff)
  moreover have "(0 :: rat) < of_nat (length ws)" using False by simp
  ultimately show ?thesis by (simp add: spec_score_def divide_le_eq_1)
qed

lemma length_filter_eq: "length (filter P xs) = length xs \<longleftrightarrow> (\<forall>x\<in>set xs. P x)"
  by (metis filter_id_conv length_filter_le sum_length_filter_compl add_cancel_right_right length_0_conv filter_empty_conv)

lemma spec_score_eq_1:
  assumes "ws \<noteq> []"
  shows "spec_score lower ws c = 1 \<longleftrightarrow> (\<forall>w\<in>set ws. py_in w (lower (ctext c)))"
proof -
  let ?k = "length (filter (\<lambda>word. py_in word (lower (ctext c))) ws)"
  have p: "(0 :: rat) < of_nat (length ws)" using assms by simp
  have "spec_score lower ws c = 1 \<longleftrightarrow> (of_nat ?k :: rat) = of_nat (length ws)"
    using p by (auto simp: spec_score_def)
  also have "\<dots> \<longleftrightarrow> ?k = length ws" by (simp only: of_nat_eq_iff)
  also have "\<dots> \<longleftrightarrow> (\<forall>w\<in>set ws. py_in w (lower (ctext c)))" by (rule length_filter_eq)
  finally show ?thesis .
qed

lemma filter_single_index:
  assumes "i < length xs" and "\<And>j. j < length xs \<Longrightarrow> P (xs ! j) \<longleftrightarrow> j = i"
  shows "filter P xs = [xs ! i]"
proof -
  have xs: "xs = take i xs @ xs ! i # drop (Suc i) xs"
    using assms(1) by (rule id_take_nth_drop)
  have a: "filter P (take i xs) = []"
  proof -
    have "\<not> P x" if "x \<in> set (take i xs)" for x
    proof -
      from that obtain j where "j < length (take i xs)" "x = take i xs ! j"
        by (metis in_set_conv_nth)
      then have "j < i" "j < length xs" "x = xs ! j" using assms(1) by simp_all
      then show ?thesis using assms(2) [of j] by simp
    qed
    then show ?thesis by (simp add: filter_empty_conv)
  qed
  have b: "filter P (drop (Suc i) xs) = []"
  proof -
    have "\<not> P x" if "x \<in> set (drop (Suc i) xs)" for x
    proof -
      from that obtain j where "j < length (drop (Suc i) xs)" "x = drop (Suc i) xs ! j"
        by (metis in_set_conv_nth)
      then have "Suc i + j < length xs" "x = xs ! (Suc i + j)" using assms(1) by simp_all
      then show ?thesis using assms(2) [of "Suc i + j"] by simp
    qed
    then show ?thesis by (simp add: filter_empty_conv)
  qed
  have c: "P (xs ! i)" using assms by simp
  have "filter P xs = filter P (take i xs @ xs ! i # drop (Suc i) xs)" using xs by simp
  then show ?thesis using a b c by simp
qed

lemma spec_unique_match:
  assumes ws: "py_split (lower query) \<noteq> []" and i: "i < length chunks"
    and u: "\<And>j. j < length chunks \<Longrightarrow>
               (\<forall>w\<in>set (py_split (lower query)). py_in w (lower (ctext (chunks ! j)))) \<longleftrightarrow> j = i"
    and k: "0 < k"
  shows "\<exists>rest. spec_keyword_search lower chunks query k =
            with_score lower (py_split (lower query)) (chunks ! i) # rest \<and>
          similarity (with_score lower (py_split (lower query)) (chunks ! i)) = 1"
proof -
  let ?ws = "py_split (lower query)"
  let ?sc = "with_score lower ?ws"
  let ?kept = "filter (\<lambda>c. 0 < similarity c) (map ?sc chunks)"
  let ?ranked = "sort_key (\<lambda>c. - similarity c) ?kept"
  let ?best = "?sc (chunks ! i)"
  have sim: "similarity (?sc c) = spec_score lower ?ws c" for c by (simp add: with_score_def)
  have one: "similarity ?best = 1" using u [OF i] ws by (simp add: sim spec_score_eq_1)
  have le1: "similarity c \<le> 1" if "c \<in> set ?kept" for c
    using that spec_score_le_1 by (auto simp: sim)
  have ones: "filter (\<lambda>c. similarity c = 1) (map ?sc chunks) = [?best]"
  proof -
    have "filter (\<lambda>c. similarity c = 1) (map ?sc chunks) = [map ?sc chunks ! i]"
    proof (rule filter_single_index)
      show "i < length (map ?sc chunks)" using i by simp
    next
      fix j assume "j < length (map ?sc chunks)"
      then have j: "j < length chunks" by simp
      then show "(similarity (map ?sc chunks ! j) = 1) = (j = i)"
        using u [OF j] ws by (simp add: sim spec_score_eq_1)
    qed
    then show ?thesis using i by simp
  qed
  have kept1: "filter (\<lambda>c. similarity c = 1) ?kept = [?best]"
  proof -
    have "filter (\<lambda>c. similarity c = 1) ?kept
            = filter (\<lambda>c. 0 < similarity c) (filter (\<lambda>c. similarity c = 1) (map ?sc chunks))"
      by (simp add: conj_commute)
    then show ?thesis using ones one by simp
  qed
  have ranked1: "filter (\<lambda>c. similarity c = 1) ?ranked = [?best]"
  proof -
    have "filter (\<lambda>c. - similarity c = - 1) ?ranked = filter (\<lambda>c. - similarity c = - 1) ?kept"
      by (rule sort_key_stable)
    then show ?thesis using kept1 by simp
  qed
  then have ne: "?ranked \<noteq> []" by auto
  then obtain h rest where hr: "?ranked = h # rest" by (cases ?ranked) auto
  have hin: "h \<in> set ?kept" using hr by (metis list.set_intros(1) set_sort)
  have bin: "?best \<in> set ?ranked"
  proof -
    have "?best \<in> set (filter (\<lambda>c. similarity c = 1) ?ranked)" using ranked1 by simp
    then show ?thesis by simp
  qed
  have "sorted (map (\<lambda>c. - similarity c) ?ranked)" by simp
  then have "- similarity h \<le> - similarity ?best" using hr bin by auto
  then have "similarity h = 1" using one le1 [OF hin] by simp
  then have "h \<in> set (filter (\<lambda>c. similarity c = 1) ?ranked)" using hr by simp
  then have "h = ?best" using ranked1 by simp
  then have "take k ?ranked = ?best # take (k - 1) rest" using hr k by (cases k) simp_all
  then show ?thesis using one by (auto simp: spec_keyword_search_def)
qed

lemma py_split_spaces: "list_all is_space s \<Longrightarrow> py_split s = []"
proof -
  assume "list_all is_space s"
  then have "dropWhile is_space s = []" by (simp add: list_all_iff)
  then show ?thesis by (subst py_split.simps) (simp add: Let_def)
qed

section \<open>Claims about the keyword search\<close>

lemmas kw_eval = keyword_search_def spec_keyword_search_def with_score_def spec_score_def
  py_split.simps ascii_lower_def mk_chunk_def mk_scored_def kw_chunks_def ustr_def
  is_space_def py_sort_reverse_def py_slice_to_def Let_def

text \<open>
  C4. For a non-negative \<open>top_k\<close> (the callers pass 5) the fallback search returns the
  first \<open>top_k\<close> elements of a ranking with these properties: it holds the chunks with a
  positive score, each with its score, the fraction of the query words that occur in its
  lower-cased text (\<open>with_score\<close>); it is ordered by score descending; and the chunks with
  one and the same score stand in it in the order of the chunk list. This is the search of
  the specification (\<open>spec_keyword_search\<close>). When the query has a word, \<open>top_k\<close> is at
  least 1 and chunk \<open>i\<close> is the only chunk that contains every query word, the first
  result is chunk \<open>i\<close> with score 1.
\<close>

theorem keyword_search_ranks_by_word_fraction:
  "0 \<le> top_k \<Longrightarrow>
     (\<exists>ranked.
        keyword_search lower chunks query top_k = Inr (take (nat top_k) ranked) \<and>
        take (nat top_k) ranked = spec_keyword_search lower chunks query (nat top_k) \<and>
        length (take (nat top_k) ranked) \<le> nat top_k \<and>
        sorted (map (\<lambda>c. - similarity c) ranked) \<and>
        (\<forall>c\<in>set ranked. 0 < similarity c) \<and>
        (\<forall>s. 0 < s \<longrightarrow>
           filter (\<lambda>c. similarity c = s) ranked =
           filter (\<lambda>c. similarity c = s)
             (map (with_score lower (py_split (lower query))) chunks)) \<and>
        (1 \<le> top_k \<and> py_split (lower query) \<noteq> [] \<and> i < length chunks \<and>
         (\<forall>j<length chunks.
             (\<forall>w\<in>set (py_split (lower query)). py_in w (lower (ctext (chunks ! j)))) = (j = i))
         \<longrightarrow> (\<exists>rest. take (nat top_k) ranked =
                       with_score lower (py_split (lower query)) (chunks ! i) # rest \<and>
                     similarity (with_score lower (py_split (lower query)) (chunks ! i)) = 1)))"
proof -
  assume k: "0 \<le> top_k"
  let ?all = "map (with_score lower (py_split (lower query))) chunks"
  let ?kept = "filter (\<lambda>c. 0 < similarity c) ?all"
  let ?ranked = "sort_key (\<lambda>c. - similarity c) ?kept"
  have r: "take (nat top_k) ?ranked = spec_keyword_search lower chunks query (nat top_k)"
    by (simp add: spec_keyword_search_def)
  have 1: "keyword_search lower chunks query top_k = Inr (take (nat top_k) ?ranked)"
    using k keyword_search_spec [of top_k lower chunks query] r by simp
  have 2: "length (take (nat top_k) ?ranked) \<le> nat top_k" by simp
  have 3: "sorted (map (\<lambda>c. - similarity c) ?ranked)" by simp
  have 4: "\<forall>c\<in>set ?ranked. 0 < similarity c" by simp
  have 5: "filter (\<lambda>c. similarity c = s) ?ranked = filter (\<lambda>c. similarity c = s) ?all"
    if s: "0 < s" for s
  proof -
    have "filter (\<lambda>c. - similarity c = - s) ?ranked = filter (\<lambda>c. - similarity c = - s) ?kept"
      by (rule sort_key_stable)
    then have "filter (\<lambda>c. similarity c = s) ?ranked = filter (\<lambda>c. similarity c = s) ?kept"
      by simp
    also have "\<dots> = filter (\<lambda>c. similarity c = s) ?all"
      using s by (auto intro: filter_cong)
    finally show ?thesis .
  qed
  have 6: "\<exists>rest. take (nat top_k) ?ranked =
               with_score lower (py_split (lower query)) (chunks ! i) # rest \<and>
             similarity (with_score lower (py_split (lower query)) (chunks ! i)) = 1"
    if "1 \<le> top_k" "py_split (lower query) \<noteq> []" "i < length chunks"
       "\<forall>j<length chunks.
          (\<forall>w\<in>set (py_split (lower query)). py_in w (lower (ctext (chunks ! j)))) = (j = i)"
    unfolding r using that by (intro spec_unique_match) auto
  show ?thesis
    using r 1 2 3 4 5 6 by (intro exI [of _ ?ranked]) blast
qed

theorem keyword_search_ranks_by_word_fraction_witness:
  "(0::int) \<le> 5 \<and>
   py_split (ascii_lower (ustr ''Big CAT'')) = [ustr ''big'', ustr ''cat''] \<and>
   length kw_chunks = 4 \<and>
   list_all (\<lambda>j. list_all (\<lambda>w. py_in w (ascii_lower (ctext (kw_chunks ! j))))
                         [ustr ''big'', ustr ''cat''] = (j = 1)) [0, 1, 2, 3] \<and>
   keyword_search ascii_lower kw_chunks (ustr ''Big CAT'') 5 =
     Inr [mk_scored ''A Big dog; the cat.'' ''a.pdf'' 1 1,
          mk_scored ''The cat sat.'' ''a.pdf'' 0 (1 / 2),
          mk_scored ''cat'' ''b.pdf'' 1 (1 / 2)] \<and>
   with_score ascii_lower [ustr ''big'', ustr ''cat''] (kw_chunks ! 1) =
     mk_scored ''A Big dog; the cat.'' ''a.pdf'' 1 1"
proof -
  have k: "(0::int) \<le> 5" by simp
  have w: "py_split (ascii_lower (ustr ''Big CAT'')) = [ustr ''big'', ustr ''cat'']"
    by (simp add: kw_eval)
  have n: "length kw_chunks = 4" by (simp add: kw_chunks_def)
  have m: "list_all (\<lambda>j. list_all (\<lambda>w. py_in w (ascii_lower (ctext (kw_chunks ! j))))
                         [ustr ''big'', ustr ''cat''] = (j = 1)) [0, 1, 2, 3]"
    by (simp add: kw_eval)
  have u: "\<forall>j<length kw_chunks.
             (\<forall>w\<in>set (py_split (ascii_lower (ustr ''Big CAT''))).
                 py_in w (ascii_lower (ctext (kw_chunks ! j)))) = (j = 1)"
  proof (intro allI impI)
    fix j assume "j < length kw_chunks"
    then have "j \<in> set [0, 1, 2, 3]" using n by auto
    then show "(\<forall>w\<in>set (py_split (ascii_lower (ustr ''Big CAT''))).
                 py_in w (ascii_lower (ctext (kw_chunks ! j)))) = (j = 1)"
      using m unfolding w list_all_iff by blast
  qed
  have ev: "spec_keyword_search ascii_lower kw_chunks (ustr ''Big CAT'') (nat 5) =
     [mk_scored ''A Big dog; the cat.'' ''a.pdf'' 1 1,
      mk_scored ''The cat sat.'' ''a.pdf'' 0 (1 / 2),
      mk_scored ''cat'' ''b.pdf'' 1 (1 / 2)]"
    by (simp add: kw_eval)
  from keyword_search_ranks_by_word_fraction [OF k, of ascii_lower kw_chunks "ustr ''Big CAT''" 1]
  obtain ranked where R:
    "keyword_search ascii_lower kw_chunks (ustr ''Big CAT'') 5 = Inr (take (nat 5) ranked)"
    "take (nat 5) ranked = spec_keyword_search ascii_lower kw_chunks (ustr ''Big CAT'') (nat 5)"
    "(1::int) \<le> 5 \<and> py_split (ascii_lower (ustr ''Big CAT'')) \<noteq> [] \<and> 1 < length kw_chunks \<and>
       (\<forall>j<length kw_chunks.
          (\<forall>w\<in>set (py_split (ascii_lower (ustr ''Big CAT''))).
              py_in w (ascii_lower (ctext (kw_chunks ! j)))) = (j = 1))
       \<longrightarrow> (\<exists>rest. take (nat 5) ranked =
              with_score ascii_lower (py_split (ascii_lower (ustr ''Big CAT''))) (kw_chunks ! 1) # rest \<and>
            similarity (with_score ascii_lower (py_split (ascii_lower (ustr ''Big CAT'')))
              (kw_chunks ! 1)) = 1)"
    by blast
  from R(3) u n w obtain rest where
    f: "take (nat 5) ranked = with_score ascii_lower [ustr ''big'', ustr ''cat''] (kw_chunks ! 1) # rest"
    by auto
  have s: "with_score ascii_lower [ustr ''big'', ustr ''cat''] (kw_chunks ! 1) =
     mk_scored ''A Big dog; the cat.'' ''a.pdf'' 1 1"
    using f R(2) ev by simp
  show ?thesis using k w n m R(1) R(2) ev s by simp
qed

text \<open>
  C10. A query without words (the empty string, or whitespace only) gives the empty list:
  no chunk has a positive score, so the division by the number of query words is not
  reached and nothing is raised.
\<close>

theorem keyword_search_no_words:
  "py_split (lower query) = [] \<Longrightarrow> keyword_search lower chunks query top_k = Inr []"
proof -
  assume ws: "py_split (lower query) = []"
  have "filter (\<lambda>c. 0 < similarity c) (map (with_score lower []) chunks) = []"
    by (simp add: filter_empty_conv with_score_def spec_score_def)
  then show ?thesis by (simp add: keyword_search_eq ws py_slice_to_def)
qed

theorem keyword_search_no_words_witness:
  "py_split (ascii_lower []) = [] \<and> keyword_search ascii_lower kw_chunks [] 5 = Inr [] \<and>
   py_split (ascii_lower (ustr ''   '')) = [] \<and>
   keyword_search ascii_lower kw_chunks (ustr ''   '') 5 = Inr []"
proof -
  have a: "py_split (ascii_lower []) = []" by (simp add: kw_eval)
  have b: "py_split (ascii_lower (ustr ''   '')) = []" by (simp add: kw_eval)
  show ?thesis
    using a b keyword_search_no_words [of ascii_lower "[]" kw_chunks 5]
      keyword_search_no_words [of ascii_lower "ustr ''   ''" kw_chunks 5]
    by simp
qed

section \<open>Lemmas about the orchestrator\<close>

lemma timeline_loop_eq:
  "timeline_loop llm n chunks events =
     events @ concat (map (\<lambda>k. reply_events (llm k)) [n..<n + length chunks])"
proof (induction chunks arbitrary: n events)
  case Nil
  then show ?case by simp
next
  case (Cons c chunks)
  have step: "timeline_loop llm n (c # chunks) events =
                timeline_loop llm (Suc n) chunks (events @ reply_events (llm n))"
    by (simp add: reply_events_def split: option.splits sum.splits)
  have "[n..<n + length (c # chunks)] = n # [Suc n..<Suc n + length chunks]"
    by (simp add: upt_rec)
  then show ?case using Cons.IH [of "Suc n" "events @ reply_events (llm n)"] step by simp
qed

lemma py_get_date:
  "has_string_date e \<Longrightarrow> py_get e (ustr ''date'') (JStr []) = Inr (JStr (date_string e))"
  by (cases e) (auto split: option.splits json.splits)

lemma date_keys_strings:
  "list_all has_string_date events \<Longrightarrow>
     date_keys events = Inr (map (\<lambda>e. (JStr (date_string e), e)) events)"
  by (induction events) (simp_all add: py_get_date)

lemma py_insort_strings:
  fixes f :: "'a \<Rightarrow> pystr"
  shows "py_insort (JStr (f x), x) (map (\<lambda>e. (JStr (f e), e)) ys) =
     Inr (map (\<lambda>e. (JStr (f e), e)) (insort_key f x ys))"
proof (induction ys)
  case Nil
  then show ?case by simp
next
  case (Cons a ys)
  show ?case
  proof (cases "f a < f x")
    case True
    then have "\<not> f x \<le> f a" by simp
    then show ?thesis using True Cons.IH by simp
  next
    case False
    then have "f x \<le> f a" by simp
    then show ?thesis using False by simp
  qed
qed

lemma py_sort_strings:
  fixes f :: "'a \<Rightarrow> pystr"
  shows "py_sort (map (\<lambda>e. (JStr (f e), e)) xs) = Inr (map (\<lambda>e. (JStr (f e), e)) (sort_key f xs))"
  by (induction xs) (simp_all add: py_insort_strings)

lemma extend_from_record:
  "list_or_absent items key \<Longrightarrow>
     extend_from (JObj items) key acc = Inr (acc @ field_list key (JObj items))"
  by (auto split: option.splits json.splits)

lemma collect_summaries_records:
  "list_all summary_record summaries \<Longrightarrow>
     collect_summaries summaries ps ds cs =
       Inr (ps @ concat (map (field_list (ustr ''main_points'')) summaries),
            ds @ concat (map (field_list (ustr ''important_data'')) summaries),
            cs @ concat (map (field_list (ustr ''conclusions'')) summaries))"
proof (induction summaries arbitrary: ps ds cs)
  case Nil
  then show ?case by simp
next
  case (Cons s summaries)
  then obtain items where s: "s = JObj items" by (cases s) simp_all
  have r: "list_or_absent items (ustr ''main_points'')" "list_or_absent items (ustr ''important_data'')"
    "list_or_absent items (ustr ''conclusions'')"
    using Cons.prems s by simp_all
  have t: "list_all summary_record summaries" using Cons.prems by simp
  show ?case
    unfolding s collect_summaries.simps
    by (simp only: extend_from_record [OF r(1)] extend_from_record [OF r(2)]
        extend_from_record [OF r(3)] sum.case Cons.IH [OF t] list.map concat.simps append_assoc)
qed

lemma failed_fallback:
  "consolidation_failed r \<Longrightarrow>
     (case parsed r of
        Some (JObj consolidated) \<Rightarrow>
          JObj (dict_set consolidated (ustr ''analysis_type'') (JStr resumo_executivo))
      | _ \<Rightarrow> fb) = fb"
  by (cases r rule: consolidation_failed.cases) simp_all


lemma executive_loop_unreachable:
  "(\<And>k. parsed (llm k) = None) \<Longrightarrow>
     executive_loop llm i chunks summaries = summaries @ map default_summary [i..<i + length chunks]"
proof (induction chunks arbitrary: i summaries)
  case Nil
  then show ?case by simp
next
  case (Cons c chunks)
  have "[i..<i + length (c # chunks)] = i # [Suc i..<Suc i + length chunks]"
    by (simp add: upt_rec)
  then show ?case using Cons by simp
qed

lemma extraction_loop_unreachable:
  "(\<And>k. parsed (llm k) = None) \<Longrightarrow> extraction_loop llm n chunks extracted_data = extracted_data"
  by (induction chunks arbitrary: n) simp_all

lemma clause_loop_unreachable:
  "(\<And>k. parsed (llm k) = None) \<Longrightarrow> clause_loop llm n chunks clauses = clauses"
  by (induction chunks arbitrary: n) simp_all

lemma timeline_loop_unreachable:
  "(\<And>k. parsed (llm k) = None) \<Longrightarrow> timeline_loop llm n chunks events = events"
  by (induction chunks arbitrary: n) simp_all

lemma default_summary_record: "summary_record (default_summary i)"
  by (simp add: default_summary_def ustr_def)

lemma default_summary_fields:
  "field_list (ustr ''main_points'') (default_summary i) =
     [JStr (ustr ''Resumo do trecho '' @ decimal (i + 1))]"
  "field_list (ustr ''important_data'') (default_summary i) = []"
  "field_list (ustr ''conclusions'') (default_summary i) = []"
  by (simp_all add: default_summary_def ustr_def)

lemma executive_summary_unreachable:
  assumes "\<And>k. llm k = Raised"
  shows "executive_summary chunks llm =
     Inr (Summary (fallback_summary
        (map (\<lambda>i. JStr (ustr ''Resumo do trecho '' @ decimal (i + 1))) [0..<length chunks]) [] []))"
proof -
  have p: "\<And>k. parsed (llm k) = None" using assms by simp
  let ?s = "map default_summary [0..<length chunks]"
  have l: "executive_loop llm 0 chunks [] = ?s"
    using executive_loop_unreachable [where llm = llm and i = 0 and chunks = chunks and summaries = "[]"] p by simp
  have r: "list_all summary_record ?s" by (simp add: list_all_iff default_summary_record)
  have c: "collect_summaries ?s [] [] [] =
     Inr (map (\<lambda>i. JStr (ustr ''Resumo do trecho '' @ decimal (i + 1))) [0..<length chunks], [], [])"
    unfolding collect_summaries_records [OF r]
    by (simp add: default_summary_fields comp_def concat_map_singleton)
  show ?thesis
    unfolding executive_summary_def consolidate_summaries_def l c by (simp add: assms)
qed

lemma topic_analysis_returns: "\<exists>r. topic_analysis chunks llm = Inr r"
  by (simp add: topic_analysis_def split: option.splits sum.splits)

lemma general_analysis_returns: "\<exists>r. general_analysis chunks t llm = Inr r"
  by (simp add: general_analysis_def split: reply.splits)

lemma data_extraction_unreachable:
  assumes "\<And>k. llm k = Raised"
  shows "data_extraction chunks llm = Inr (Extracted (map (\<lambda>key. (key, {})) categories))"
proof -
  have p: "\<And>k. parsed (llm k) = None" using assms by simp
  show ?thesis
    unfolding data_extraction_def extraction_loop_unreachable [OF p]
    by (simp add: list_all_iff comp_def)
qed

lemma timeline_unreachable:
  assumes "\<And>k. llm k = Raised"
  shows "timeline_analysis chunks llm = Inr (Timeline [])"
proof -
  have p: "\<And>k. parsed (llm k) = None" using assms by simp
  show ?thesis
    unfolding timeline_analysis_def timeline_loop_unreachable [OF p] by simp
qed

section \<open>Lemmas about folder ingestion\<close>


section \<open>Claims about the orchestrator\<close>

lemmas analyzer_eval = timeline_analysis_def timeline_llm_def events_reply_def event_def
  three_chunks_def ustr_def null_date_llm_def unreachable_llm_def summary_llm_def one_point_def
  executive_summary_def consolidate_summaries_def fallback_summary_def default_summary_def
  six_points_def nested_dates_llm_def list_reply_llm_def data_extraction_def categories_def
  perform_detailed_analysis_def create_chunks_def word_doc_def chunk_text_def re_split.simps
  py_strip_def is_space_def is_term_def Let_def resumo_executivo_def analise_por_topicos_def
  extracao_de_dados_def analise_de_clausulas_def timeline_de_eventos_def

text \<open>
  C7. When every collected event is a dictionary whose date is a string (or is absent),
  the timeline is the list of the events of all chunks, flattened in chunk order and
  sorted ascending and stable by the date string under the lexicographic order of code
  points. Dates that are not strings are outside the claim.
\<close>

theorem timeline_sorted_by_date_string:
  "list_all has_string_date (concat (map (\<lambda>n. reply_events (llm n)) [0..<length chunks])) \<Longrightarrow>
     timeline_analysis chunks llm =
       Inr (Timeline (sort_key date_string
              (concat (map (\<lambda>n. reply_events (llm n)) [0..<length chunks])))) \<and>
     sorted (map date_string (sort_key date_string
              (concat (map (\<lambda>n. reply_events (llm n)) [0..<length chunks]))))"
proof -
  let ?events = "concat (map (\<lambda>n. reply_events (llm n)) [0..<length chunks])"
  assume a: "list_all has_string_date ?events"
  have l: "timeline_loop llm 0 chunks [] = ?events" by (simp add: timeline_loop_eq)
  have "timeline_analysis chunks llm = Inr (Timeline (sort_key date_string ?events))"
    unfolding timeline_analysis_def l
    by (simp add: date_keys_strings [OF a] py_sort_strings comp_def)
  then show ?thesis by simp
qed

theorem timeline_sorted_by_date_string_witness:
  "list_all has_string_date
     (concat (map (\<lambda>n. reply_events (timeline_llm n)) [0..<length three_chunks])) \<and>
   timeline_analysis three_chunks timeline_llm =
     Inr (Timeline [event ''2024-01-15'' ''kickoff'', event ''2024-02-10'' ''review'',
                    event ''2024-03-01'' ''launch'']) \<and>
   map date_string [event ''2024-01-15'' ''kickoff'', event ''2024-02-10'' ''review'',
                    event ''2024-03-01'' ''launch''] =
     [ustr ''2024-01-15'', ustr ''2024-02-10'', ustr ''2024-03-01'']"
proof -
  have ev: "concat (map (\<lambda>n. reply_events (timeline_llm n)) [0..<length three_chunks]) =
      [event ''2024-03-01'' ''launch'', event ''2024-01-15'' ''kickoff'', event ''2024-02-10'' ''review'']"
    by (simp add: three_chunks_def upt_rec reply_events_def timeline_llm_def events_reply_def)
  have h: "list_all has_string_date
     (concat (map (\<lambda>n. reply_events (timeline_llm n)) [0..<length three_chunks]))"
    unfolding ev by (simp add: event_def ustr_def)
  have s: "sort_key date_string
      [event ''2024-03-01'' ''launch'', event ''2024-01-15'' ''kickoff'', event ''2024-02-10'' ''review'']
    = [event ''2024-01-15'' ''kickoff'', event ''2024-02-10'' ''review'', event ''2024-03-01'' ''launch'']"
    by (simp add: event_def ustr_def)
  have d: "map date_string [event ''2024-01-15'' ''kickoff'', event ''2024-02-10'' ''review'',
                    event ''2024-03-01'' ''launch''] =
     [ustr ''2024-01-15'', ustr ''2024-02-10'', ustr ''2024-03-01'']"
    by (simp add: event_def ustr_def)
  show ?thesis
    using timeline_sorted_by_date_string [OF h] h d unfolding ev s by simp
qed

text \<open>
  C5. For per-chunk summary records, when the consolidation fails the summary is the
  default: the first 5 collected main points, the first 5 data items, the first 3
  conclusions, no recommendation and the placeholder text; and Executive Summary, whose
  result is that of the consolidation of its per-chunk summaries, returns it.
\<close>

theorem consolidation_failure_fallback:
  "list_all summary_record summaries \<Longrightarrow> consolidation_failed consolidation \<Longrightarrow>
     (\<exists>result.
        result = Summary (JObj
          [(ustr ''analysis_type'', JStr resumo_executivo),
           (ustr ''executive_summary'', JStr resumo_nao_disponivel),
           (ustr ''key_findings'',
              JArr (take 5 (concat (map (field_list (ustr ''main_points'')) summaries)))),
           (ustr ''important_metrics'',
              JArr (take 5 (concat (map (field_list (ustr ''important_data'')) summaries)))),
           (ustr ''recommendations'', JArr []),
           (ustr ''main_conclusions'',
              JArr (take 3 (concat (map (field_list (ustr ''conclusions'')) summaries))))]) \<and>
        consolidate_summaries summaries consolidation = Inr result \<and>
        (executive_loop llm 0 chunks [] = summaries \<and> llm (length chunks) = consolidation
           \<longrightarrow> executive_summary chunks llm = Inr result))"
proof -
  assume a: "list_all summary_record summaries" and f: "consolidation_failed consolidation"
  show ?thesis
    unfolding consolidate_summaries_def executive_summary_def
    by (simp add: collect_summaries_records [OF a] failed_fallback [OF f] fallback_summary_def)
qed

theorem consolidation_failure_fallback_witness:
  "list_all summary_record [one_point ''p1'', one_point ''p2'', one_point ''p3''] \<and>
   consolidation_failed Raised \<and>
   executive_loop summary_llm 0 three_chunks [] =
     [one_point ''p1'', one_point ''p2'', one_point ''p3''] \<and>
   summary_llm (length three_chunks) = Raised \<and>
   executive_summary three_chunks summary_llm =
     Inr (Summary (JObj
       [(ustr ''analysis_type'', JStr resumo_executivo),
        (ustr ''executive_summary'', JStr resumo_nao_disponivel),
        (ustr ''key_findings'', JArr [JStr (ustr ''p1''), JStr (ustr ''p2''), JStr (ustr ''p3'')]),
        (ustr ''important_metrics'', JArr []),
        (ustr ''recommendations'', JArr []),
        (ustr ''main_conclusions'', JArr [])])) \<and>
   list_all summary_record [six_points] \<and>
   consolidate_summaries [six_points] (Content [] None) =
     Inr (Summary (JObj
       [(ustr ''analysis_type'', JStr resumo_executivo),
        (ustr ''executive_summary'', JStr resumo_nao_disponivel),
        (ustr ''key_findings'',
           JArr [JStr (ustr ''p1''), JStr (ustr ''p2''), JStr (ustr ''p3''), JStr (ustr ''p4''),
                 JStr (ustr ''p5'')]),
        (ustr ''important_metrics'', JArr [JStr (ustr ''d1'')]),
        (ustr ''recommendations'', JArr []),
        (ustr ''main_conclusions'', JArr [JStr (ustr ''c1''), JStr (ustr ''c2''), JStr (ustr ''c3'')])]))"
proof -
  have r3: "list_all summary_record [one_point ''p1'', one_point ''p2'', one_point ''p3'']"
    by (simp add: one_point_def ustr_def)
  have f1: "consolidation_failed Raised" by simp
  have l: "executive_loop summary_llm 0 three_chunks [] =
             [one_point ''p1'', one_point ''p2'', one_point ''p3'']"
    by (simp add: three_chunks_def summary_llm_def)
  have c: "summary_llm (length three_chunks) = Raised"
    by (simp add: three_chunks_def summary_llm_def)
  have r6: "list_all summary_record [six_points]" by (simp add: six_points_def ustr_def)
  have f2: "consolidation_failed (Content [] None)" by simp
  have p3: "concat (map (field_list (ustr ''main_points''))
              [one_point ''p1'', one_point ''p2'', one_point ''p3'']) =
            [JStr (ustr ''p1''), JStr (ustr ''p2''), JStr (ustr ''p3'')]"
       "concat (map (field_list (ustr ''important_data''))
              [one_point ''p1'', one_point ''p2'', one_point ''p3'']) = []"
       "concat (map (field_list (ustr ''conclusions''))
              [one_point ''p1'', one_point ''p2'', one_point ''p3'']) = []"
    by (simp_all add: one_point_def ustr_def)
  have p6: "take 5 (concat (map (field_list (ustr ''main_points'')) [six_points])) =
              [JStr (ustr ''p1''), JStr (ustr ''p2''), JStr (ustr ''p3''), JStr (ustr ''p4''),
               JStr (ustr ''p5'')]"
       "take 5 (concat (map (field_list (ustr ''important_data'')) [six_points])) = [JStr (ustr ''d1'')]"
       "take 3 (concat (map (field_list (ustr ''conclusions'')) [six_points])) =
              [JStr (ustr ''c1''), JStr (ustr ''c2''), JStr (ustr ''c3'')]"
    by (simp_all add: six_points_def ustr_def)
  from consolidation_failure_fallback [OF r3 f1, of summary_llm three_chunks] l c
  have A: "executive_summary three_chunks summary_llm =
     Inr (Summary (JObj
       [(ustr ''analysis_type'', JStr resumo_executivo),
        (ustr ''executive_summary'', JStr resumo_nao_disponivel),
        (ustr ''key_findings'', JArr [JStr (ustr ''p1''), JStr (ustr ''p2''), JStr (ustr ''p3'')]),
        (ustr ''important_metrics'', JArr []),
        (ustr ''recommendations'', JArr []),
        (ustr ''main_conclusions'', JArr [])]))"
    unfolding p3 by simp
  from consolidation_failure_fallback [OF r6 f2, of summary_llm three_chunks]
  have B: "consolidate_summaries [six_points] (Content [] None) =
     Inr (Summary (JObj
       [(ustr ''analysis_type'', JStr resumo_executivo),
        (ustr ''executive_summary'', JStr resumo_nao_disponivel),
        (ustr ''key_findings'',
           JArr [JStr (ustr ''p1''), JStr (ustr ''p2''), JStr (ustr ''p3''), JStr (ustr ''p4''),
                 JStr (ustr ''p5'')]),
        (ustr ''important_metrics'', JArr [JStr (ustr ''d1'')]),
        (ustr ''recommendations'', JArr []),
        (ustr ''main_conclusions'', JArr [JStr (ustr ''c1''), JStr (ustr ''c2''), JStr (ustr ''c3'')])]))"
    unfolding p6 by simp
  show ?thesis using r3 f1 l c A r6 B by simp
qed

section \<open>Claims about folder ingestion and the failure semantics\<close>








text \<open>
  C2. The claim: no strategy raises an exception past the orchestrator. The code does not
  keep it. Every request and the reading of its reply are inside a \<^verbatim>\<open>try\<close>, but the
  post-processing of three strategies runs outside every \<^verbatim>\<open>try\<close>, unlike Topic
  Analysis, Clause Analysis and General, where everything is guarded. For a one-chunk
  document: the sort of the timeline raises \<^verbatim>\<open>TypeError\<close> when the reply has an event
  with the date \<^verbatim>\<open>null\<close> beside a dated one; the removal of duplicates of Data
  Extraction raises \<^verbatim>\<open>TypeError\<close> for a list inside a category; and the collection of
  the summaries of Executive Summary raises \<^verbatim>\<open>AttributeError\<close> for a reply that is a
  list.
\<close>

theorem orchestrator_raises_past_boundary:
  "create_chunks contract_doc 4000 = Inr [ustr ''Signed in March. Started in January.''] \<and>
   perform_detailed_analysis contract_doc timeline_de_eventos null_date_llm = Inl TypeError \<and>
   perform_detailed_analysis contract_doc extracao_de_dados nested_dates_llm = Inl TypeError \<and>
   perform_detailed_analysis contract_doc resumo_executivo list_reply_llm = Inl AttributeError"
  by (simp add: analyzer_eval contract_doc_def)

text \<open>
  What the orchestrator does keep. Topic Analysis, Clause Analysis and General return a
  result whatever the collaborator does, and so does the orchestrator for their labels. A
  request that raises or a reply that does not parse is absorbed where it happens: the
  chunk gets the default summary, adds nothing to the extracted data, the clauses or the
  events, and the topic gets the default analysis. When no request reaches the
  collaborator, every strategy returns: Topic Analysis and General the error-tagged
  result, Executive Summary the placeholder summary over the per-chunk defaults, Data
  Extraction the empty categories, Clause Analysis the empty list and Timeline the empty
  timeline.
\<close>

theorem orchestrator_failure_semantics:
  "create_chunks tc 4000 = Inr chunks \<Longrightarrow>
     (\<exists>r. topic_analysis chunks llm = Inr r) \<and>
     (\<exists>r. clause_analysis chunks llm = Inr r) \<and>
     (\<exists>r. general_analysis chunks analysis_type llm = Inr r) \<and>
     (analysis_type \<noteq> resumo_executivo \<and> analysis_type \<noteq> extracao_de_dados \<and>
      analysis_type \<noteq> timeline_de_eventos
        \<longrightarrow> (\<exists>r. perform_detailed_analysis tc analysis_type llm = Inr r)) \<and>
     (parsed (llm n) = None \<longrightarrow>
        executive_loop llm n (chunk # rest) summaries =
          executive_loop llm (Suc n) rest (summaries @ [default_summary n]) \<and>
        extraction_loop llm n (chunk # rest) extracted_data =
          extraction_loop llm (Suc n) rest extracted_data \<and>
        clause_loop llm n (chunk # rest) clauses = clause_loop llm (Suc n) rest clauses \<and>
        timeline_loop llm n (chunk # rest) events = timeline_loop llm (Suc n) rest events \<and>
        topic_loop llm n (JStr topic # topics) topic_analyses =
          topic_loop llm (Suc n) topics (dict_set topic_analyses topic (default_topic topic))) \<and>
     ((\<forall>k. llm k = Raised) \<longrightarrow>
        perform_detailed_analysis tc analysis_type llm =
          Inr (if analysis_type = resumo_executivo
               then Summary (fallback_summary
                      (map (\<lambda>i. JStr (ustr ''Resumo do trecho '' @ decimal (i + 1)))
                           [0..<length chunks]) [] [])
               else if analysis_type = analise_por_topicos then Error_result
               else if analysis_type = extracao_de_dados
               then Extracted (map (\<lambda>key. (key, {})) categories)
               else if analysis_type = analise_de_clausulas then Clauses []
               else if analysis_type = timeline_de_eventos then Timeline []
               else Error_result))"
proof -
  assume c: "create_chunks tc 4000 = Inr chunks"
  have 1: "\<exists>r. topic_analysis chunks llm = Inr r" by (rule topic_analysis_returns)
  have 2: "\<exists>r. clause_analysis chunks llm = Inr r" by (simp add: clause_analysis_def)
  have 3: "\<exists>r. general_analysis chunks analysis_type llm = Inr r"
    by (rule general_analysis_returns)
  have 4: "\<exists>r. perform_detailed_analysis tc analysis_type llm = Inr r"
    if "analysis_type \<noteq> resumo_executivo \<and> analysis_type \<noteq> extracao_de_dados \<and>
        analysis_type \<noteq> timeline_de_eventos"
    using that 1 2 3 by (simp add: perform_detailed_analysis_def c)
  have 5: "executive_loop llm n (chunk # rest) summaries =
          executive_loop llm (Suc n) rest (summaries @ [default_summary n]) \<and>
        extraction_loop llm n (chunk # rest) extracted_data =
          extraction_loop llm (Suc n) rest extracted_data \<and>
        clause_loop llm n (chunk # rest) clauses = clause_loop llm (Suc n) rest clauses \<and>
        timeline_loop llm n (chunk # rest) events = timeline_loop llm (Suc n) rest events \<and>
        topic_loop llm n (JStr topic # topics) topic_analyses =
          topic_loop llm (Suc n) topics (dict_set topic_analyses topic (default_topic topic))"
    if "parsed (llm n) = None"
    using that by simp
  have 6: "perform_detailed_analysis tc analysis_type llm =
          Inr (if analysis_type = resumo_executivo
               then Summary (fallback_summary
                      (map (\<lambda>i. JStr (ustr ''Resumo do trecho '' @ decimal (i + 1)))
                           [0..<length chunks]) [] [])
               else if analysis_type = analise_por_topicos then Error_result
               else if analysis_type = extracao_de_dados
               then Extracted (map (\<lambda>key. (key, {})) categories)
               else if analysis_type = analise_de_clausulas then Clauses []
               else if analysis_type = timeline_de_eventos then Timeline []
               else Error_result)"
    if u: "\<forall>k. llm k = Raised"
  proof -
    have r: "\<And>k. llm k = Raised" using u by simp
    have p: "\<And>k. parsed (llm k) = None" using r by simp
    have t: "topic_analysis chunks llm = Inr Error_result"
      by (simp add: topic_analysis_def p)
    have g: "general_analysis chunks analysis_type llm = Inr Error_result"
      by (simp add: general_analysis_def r)
    have cl: "clause_analysis chunks llm = Inr (Clauses [])"
      by (simp add: clause_analysis_def clause_loop_unreachable [OF p])
    show ?thesis
      unfolding perform_detailed_analysis_def c
      by (simp add: executive_summary_unreachable [OF r] data_extraction_unreachable [OF r]
          timeline_unreachable [OF r] t g cl)
  qed
  show ?thesis using 1 2 3 4 5 6 by blast
qed

lemma contract_chunks:
  "create_chunks contract_doc 4000 = Inr [ustr ''Signed in March. Started in January.'']"
  by (simp add: contract_doc_def chunker_eval)

theorem orchestrator_failure_semantics_witness:
  "create_chunks contract_doc 4000 = Inr [ustr ''Signed in March. Started in January.''] \<and>
   perform_detailed_analysis contract_doc resumo_executivo unreachable_llm =
     Inr (Summary (fallback_summary [JStr (ustr ''Resumo do trecho 1'')] [] [])) \<and>
   perform_detailed_analysis contract_doc analise_por_topicos unreachable_llm = Inr Error_result \<and>
   perform_detailed_analysis contract_doc extracao_de_dados unreachable_llm =
     Inr (Extracted (map (\<lambda>key. (key, {})) categories)) \<and>
   perform_detailed_analysis contract_doc analise_de_clausulas unreachable_llm = Inr (Clauses []) \<and>
   perform_detailed_analysis contract_doc timeline_de_eventos unreachable_llm = Inr (Timeline []) \<and>
   perform_detailed_analysis contract_doc (ustr ''SWOT'') unreachable_llm = Inr Error_result"
proof -
  have u: "\<forall>k. unreachable_llm k = Raised" by (simp add: unreachable_llm_def)
  have d: "decimal (Suc 0) = ustr ''1''" by (simp add: decimal.simps ustr_def)
  have labels:
    "analise_por_topicos \<noteq> resumo_executivo"
    "extracao_de_dados \<noteq> resumo_executivo" "extracao_de_dados \<noteq> analise_por_topicos"
    "analise_de_clausulas \<noteq> resumo_executivo" "analise_de_clausulas \<noteq> analise_por_topicos"
    "analise_de_clausulas \<noteq> extracao_de_dados"
    "timeline_de_eventos \<noteq> resumo_executivo" "timeline_de_eventos \<noteq> analise_por_topicos"
    "timeline_de_eventos \<noteq> extracao_de_dados" "timeline_de_eventos \<noteq> analise_de_clausulas"
    "ustr ''SWOT'' \<noteq> resumo_executivo" "ustr ''SWOT'' \<noteq> analise_por_topicos"
    "ustr ''SWOT'' \<noteq> extracao_de_dados" "ustr ''SWOT'' \<noteq> analise_de_clausulas"
    "ustr ''SWOT'' \<noteq> timeline_de_eventos"
    by (simp_all add: resumo_executivo_def analise_por_topicos_def extracao_de_dados_def
        analise_de_clausulas_def timeline_de_eventos_def ustr_def)
  note T = orchestrator_failure_semantics [OF contract_chunks, where llm = unreachable_llm]
  show ?thesis
    using contract_chunks u labels d
      T [where analysis_type = resumo_executivo]
      T [where analysis_type = analise_por_topicos]
      T [where analysis_type = extracao_de_dados]
      T [where analysis_type = analise_de_clausulas]
      T [where analysis_type = timeline_de_eventos]
      T [where analysis_type = "ustr ''SWOT''"]
    by (simp add: ustr_def)
qed

text \<open>
  The three escapes are the only ones. When the collected summaries are summary records,
  the collected category values are hashable and the collected events are dictionaries
  with a string (or no) date, the orchestrator returns a result for every label and every
  behaviour of the collaborator.
\<close>

theorem orchestrator_returns_for_shaped_replies:
  "create_chunks tc 4000 = Inr chunks \<Longrightarrow>
   list_all summary_record (executive_loop llm 0 chunks []) \<Longrightarrow>
   list_all (\<lambda>item. list_all py_hashable (snd item))
     (extraction_loop llm 0 chunks (map (\<lambda>key. (key, [])) categories)) \<Longrightarrow>
   list_all has_string_date (timeline_loop llm 0 chunks []) \<Longrightarrow>
     \<exists>r. perform_detailed_analysis tc analysis_type llm = Inr r"
proof -
  assume c: "create_chunks tc 4000 = Inr chunks"
    and s: "list_all summary_record (executive_loop llm 0 chunks [])"
    and h: "list_all (\<lambda>item. list_all py_hashable (snd item))
              (extraction_loop llm 0 chunks (map (\<lambda>key. (key, [])) categories))"
    and d: "list_all has_string_date (timeline_loop llm 0 chunks [])"
  have e: "\<exists>r. executive_summary chunks llm = Inr r"
    unfolding executive_summary_def consolidate_summaries_def
    by (simp add: collect_summaries_records [OF s])
  have x: "\<exists>r. data_extraction chunks llm = Inr r"
    using h by (simp add: data_extraction_def Let_def)
  have t: "\<exists>r. timeline_analysis chunks llm = Inr r"
    unfolding timeline_analysis_def
    by (simp add: date_keys_strings [OF d] py_sort_strings)
  have o: "\<exists>r. topic_analysis chunks llm = Inr r" by (rule topic_analysis_returns)
  have g: "\<exists>r. general_analysis chunks analysis_type llm = Inr r"
    by (rule general_analysis_returns)
  show ?thesis
    using e x t o g by (simp add: perform_detailed_analysis_def c clause_analysis_def)
qed

end
